theory Spec2Isabelle
  imports Main "HOL-Library.Word"
begin

section \<open>Data-storage program client: codecs and instruction builders\<close>

text \<open>
  A shallow embedding of \<^verbatim>\<open>src/testCodecs/getCodecs.mts\<close>: the three
  instruction-payload encoders, the account decoder and the five instruction builders.
  The source composes the combinators of the \<^verbatim>\<open>@solana/codecs\<close> package; each
  combinator it uses is embedded here with the behaviour of the package, errors included.
\<close>

subsection \<open>Values\<close>

type_synonym byte = "8 word"

text \<open>
  A JavaScript string is a sequence of UTF-16 code units. An \<^verbatim>\<open>Address\<close> is a
  string of base-58 characters (ASCII), a JavaScript \<^verbatim>\<open>number\<close> that the source
  uses as an integer is an \<open>int\<close>, and a \<^verbatim>\<open>Uint8Array\<close> is a list of bytes.
\<close>

type_synonym js_string = "16 word list"
type_synonym Address = string

text \<open>The errors that the codecs of the package throw.\<close>

datatype codec_error =
    NUMBER_OUT_OF_RANGE
  | INVALID_NUMBER_OF_ITEMS
  | INVALID_BYTE_LENGTH
  | CANNOT_DECODE_EMPTY_BYTE_ARRAY

subsection \<open>The platform's \<^verbatim>\<open>TextEncoder\<close>\<close>

definition isHighSurrogate :: "16 word \<Rightarrow> bool" where
  "isHighSurrogate u = (0xD800 \<le> u \<and> u \<le> 0xDBFF)"

definition isLowSurrogate :: "16 word \<Rightarrow> bool" where
  "isLowSurrogate u = (0xDC00 \<le> u \<and> u \<le> 0xDFFF)"

definition loneUnit :: "16 word \<Rightarrow> nat" where
  "loneUnit u = (if isHighSurrogate u \<or> isLowSurrogate u then 0xFFFD else unat u)"

text \<open>
  The conversion of a string to scalar values: a surrogate pair is one code point, a
  surrogate without its partner is replaced by U+FFFD.
\<close>

fun scalarValues :: "js_string \<Rightarrow> nat list" where
  "scalarValues [] = []"
| "scalarValues [u] = [loneUnit u]"
| "scalarValues (u # v # rest) =
     (if isHighSurrogate u \<and> isLowSurrogate v
      then (0x10000 + (unat u - 0xD800) * 0x400 + (unat v - 0xDC00)) # scalarValues rest
      else loneUnit u # scalarValues (v # rest))"

text \<open>A scalar value is a code point that is not a surrogate.\<close>

definition isScalarValue :: "nat \<Rightarrow> bool" where
  "isScalarValue c = (c < 0xD800 \<or> (0xE000 \<le> c \<and> c < 0x110000))"

definition utf8Bytes :: "nat \<Rightarrow> byte list" where
  "utf8Bytes c =
     (if c < 0x80 then [of_nat c]
      else if c < 0x800 then [of_nat (0xC0 + c div 64), of_nat (0x80 + c mod 64)]
      else if c < 0x10000 then
        [of_nat (0xE0 + c div 4096), of_nat (0x80 + c div 64 mod 64), of_nat (0x80 + c mod 64)]
      else
        [of_nat (0xF0 + c div 262144), of_nat (0x80 + c div 4096 mod 64),
         of_nat (0x80 + c div 64 mod 64), of_nat (0x80 + c mod 64)])"

definition TextEncoder_encode :: "js_string \<Rightarrow> byte list" where
  "TextEncoder_encode s = concat (map utf8Bytes (scalarValues s))"

subsection \<open>Encoder combinators\<close>

text \<open>
  An encoder maps a value to its bytes or throws. The package writes each field into a
  freshly allocated, zero-filled buffer at increasing offsets; the bytes of a struct are
  therefore the bytes of its fields one after the other, and a fixed-size slot that a
  value does not fill keeps the zeros of the buffer.
\<close>

type_synonym 'a Encoder = "'a \<Rightarrow> codec_error + byte list"

definition getU8Encoder :: "int Encoder" where
  "getU8Encoder v = (if v < 0 \<or> 255 < v then Inl NUMBER_OUT_OF_RANGE else Inr [word_of_int v])"

definition getUtf8Encoder :: "js_string Encoder" where
  "getUtf8Encoder s = Inr (TextEncoder_encode s)"

definition fixEncoderSize :: "'a Encoder \<Rightarrow> nat \<Rightarrow> 'a Encoder" where
  "fixEncoderSize encoder fixedBytes v =
     (case encoder v of
        Inl e \<Rightarrow> Inl e
      | Inr variableByteArray \<Rightarrow>
          let fixedByteArray =
                (if length variableByteArray > fixedBytes then take fixedBytes variableByteArray
                 else variableByteArray)
          in Inr (fixedByteArray @ replicate (fixedBytes - length fixedByteArray) 0))"

fun encodeItems :: "'a Encoder \<Rightarrow> 'a list \<Rightarrow> codec_error + byte list" where
  "encodeItems item [] = Inr []"
| "encodeItems item (x # xs) =
     (case item x of
        Inl e \<Rightarrow> Inl e
      | Inr b \<Rightarrow> (case encodeItems item xs of Inl e \<Rightarrow> Inl e | Inr bs \<Rightarrow> Inr (b @ bs)))"

text \<open>
  The array encoder with a fixed number of items, \<^verbatim>\<open>{ size: n }\<close>; the number is a
  size, a natural number.
\<close>

definition getArrayEncoder :: "'a Encoder \<Rightarrow> nat \<Rightarrow> 'a list Encoder" where
  "getArrayEncoder item size_n array =
     (if length array \<noteq> size_n then Inl INVALID_NUMBER_OF_ITEMS
      else encodeItems item array)"

text \<open>
  A struct encoder is the list of its fields in order; a field is a key of the struct (its
  selector) with the encoder of its value.
\<close>

definition field :: "('s \<Rightarrow> 'a) \<Rightarrow> 'a Encoder \<Rightarrow> 's Encoder" where
  "field key encoder s = encoder (key s)"

fun getStructEncoder :: "'s Encoder list \<Rightarrow> 's Encoder" where
  "getStructEncoder [] s = Inr []"
| "getStructEncoder (f # fs) s =
     (case f s of
        Inl e \<Rightarrow> Inl e
      | Inr b \<Rightarrow> (case getStructEncoder fs s of Inl e \<Rightarrow> Inl e | Inr bs \<Rightarrow> Inr (b @ bs)))"

definition transformEncoder :: "'a Encoder \<Rightarrow> ('b \<Rightarrow> 'a) \<Rightarrow> 'b Encoder" where
  "transformEncoder encoder unmap v = encoder (unmap v)"

subsection \<open>Instruction payloads\<close>

text \<open>
  The struct that an encoder writes has a \<^verbatim>\<open>discriminator\<close>; the value a caller
  passes is any object with the other fields, with or without a discriminator of its
  own: the transform \<^verbatim>\<open>value => ({ ...value, discriminator: k })\<close> copies the other
  fields and sets the discriminator.
\<close>

record CreateFields =
  label :: js_string
  data :: "int list"

record CreateStruct = CreateFields +
  discriminator :: int

record EditFields =
  newData :: "int list"

record EditStruct = EditFields +
  discriminator :: int

record CloseStruct =
  discriminator :: int

definition getCreateDataStorageAccountInstructionDataEncoder ::
  "nat \<Rightarrow> 'z CreateFields_scheme Encoder" where
  "getCreateDataStorageAccountInstructionDataEncoder data_size =
     (let ix_create_new_dsa = getStructEncoder
            [ field CreateStruct.discriminator getU8Encoder,
              field CreateFields.label (fixEncoderSize getUtf8Encoder 30),
              field CreateFields.data (getArrayEncoder getU8Encoder data_size) ]
      in transformEncoder ix_create_new_dsa
           (\<lambda>v. \<lparr>CreateFields.label = CreateFields.label v,
                 CreateFields.data = CreateFields.data v,
                 CreateStruct.discriminator = 0\<rparr>))"

definition getEditDataStorageAccountInstructionDataEncoder ::
  "nat \<Rightarrow> 'z EditFields_scheme Encoder" where
  "getEditDataStorageAccountInstructionDataEncoder data_size =
     (let ix_edit_dsa = getStructEncoder
            [ field EditStruct.discriminator getU8Encoder,
              field EditFields.newData (getArrayEncoder getU8Encoder data_size) ]
      in transformEncoder ix_edit_dsa
           (\<lambda>v. \<lparr>newData = EditFields.newData v, EditStruct.discriminator = 1\<rparr>))"

definition getCloseDataStorageAccountInstructionDataEncoder :: "'a Encoder" where
  "getCloseDataStorageAccountInstructionDataEncoder =
     (let ix_close_dsa = getStructEncoder [ field CloseStruct.discriminator getU8Encoder ]
      in transformEncoder ix_close_dsa (\<lambda>v. \<lparr>CloseStruct.discriminator = 2\<rparr>))"

subsection \<open>Instructions\<close>

datatype AccountRole = READONLY | WRITABLE | READONLY_SIGNER | WRITABLE_SIGNER

record AccountMeta =
  address :: Address
  role :: AccountRole

record IInstruction =
  programAddress :: Address
  accounts :: "AccountMeta list"
  data :: "byte list"

definition SYSTEM_PROGRAM_ID :: Address where
  "SYSTEM_PROGRAM_ID = ''11111111111111111111111111111111''"

definition DATA_STORAGE_PROGRAM_ID :: Address where
  "DATA_STORAGE_PROGRAM_ID = ''DSAgnFyNE53P9m5vz9ALojPQwbtaPjwzPa61ZN1oe7mG''"

text \<open>
  The builders take the fields of their \<^verbatim>\<open>params\<close> object as arguments. The data of
  a builder is a \<^verbatim>\<open>Uint8Array\<close>; the encoder reads its elements as numbers. A builder
  throws what its encoder throws.
\<close>

definition getCreateDataStorageAccountInstruction ::
  "Address \<Rightarrow> Address \<Rightarrow> Address \<Rightarrow> js_string \<Rightarrow> byte list \<Rightarrow> codec_error + IInstruction" where
  "getCreateDataStorageAccountInstruction new_data_storage_pda data_storage_authority
       funding_account label' data' =
     (case getCreateDataStorageAccountInstructionDataEncoder (length data')
             \<lparr>CreateFields.label = label', CreateFields.data = map uint data'\<rparr> of
        Inl e \<Rightarrow> Inl e
      | Inr payload \<Rightarrow> Inr
          \<lparr>programAddress = DATA_STORAGE_PROGRAM_ID,
           accounts =
             [ \<lparr>address = new_data_storage_pda, role = WRITABLE\<rparr>,
               \<lparr>address = data_storage_authority, role = READONLY_SIGNER\<rparr>,
               \<lparr>address = funding_account, role = WRITABLE_SIGNER\<rparr>,
               \<lparr>address = SYSTEM_PROGRAM_ID, role = READONLY\<rparr> ],
           IInstruction.data = payload\<rparr>)"

definition getEditDataStorageAccountWithNewDataLenIsEqualToOldDataLenInstruction ::
  "Address \<Rightarrow> Address \<Rightarrow> byte list \<Rightarrow> codec_error + IInstruction" where
  "getEditDataStorageAccountWithNewDataLenIsEqualToOldDataLenInstruction data_storage_pda
       data_storage_authority new_data =
     (case getEditDataStorageAccountInstructionDataEncoder (length new_data)
             \<lparr>newData = map uint new_data\<rparr> of
        Inl e \<Rightarrow> Inl e
      | Inr payload \<Rightarrow> Inr
          \<lparr>programAddress = DATA_STORAGE_PROGRAM_ID,
           accounts =
             [ \<lparr>address = data_storage_pda, role = WRITABLE\<rparr>,
               \<lparr>address = data_storage_authority, role = READONLY_SIGNER\<rparr> ],
           IInstruction.data = payload\<rparr>)"

definition getEditDataStorageAccountWithNewDataLenLessIsThanOldDataLenInstruction ::
  "Address \<Rightarrow> Address \<Rightarrow> Address \<Rightarrow> byte list \<Rightarrow> codec_error + IInstruction" where
  "getEditDataStorageAccountWithNewDataLenLessIsThanOldDataLenInstruction data_storage_pda
       data_storage_authority rent_receiver_account new_data =
     (case getEditDataStorageAccountInstructionDataEncoder (length new_data)
             \<lparr>newData = map uint new_data\<rparr> of
        Inl e \<Rightarrow> Inl e
      | Inr payload \<Rightarrow> Inr
          \<lparr>programAddress = DATA_STORAGE_PROGRAM_ID,
           accounts =
             [ \<lparr>address = data_storage_pda, role = WRITABLE\<rparr>,
               \<lparr>address = data_storage_authority, role = READONLY_SIGNER\<rparr>,
               \<lparr>address = rent_receiver_account, role = WRITABLE\<rparr> ],
           IInstruction.data = payload\<rparr>)"

definition getEditDataStorageAccountWithNewDataLenIsBiggerThanOldDataLenInstruction ::
  "Address \<Rightarrow> Address \<Rightarrow> Address \<Rightarrow> byte list \<Rightarrow> codec_error + IInstruction" where
  "getEditDataStorageAccountWithNewDataLenIsBiggerThanOldDataLenInstruction data_storage_pda
       data_storage_authority funding_account new_data =
     (case getEditDataStorageAccountInstructionDataEncoder (length new_data)
             \<lparr>newData = map uint new_data\<rparr> of
        Inl e \<Rightarrow> Inl e
      | Inr payload \<Rightarrow> Inr
          \<lparr>programAddress = DATA_STORAGE_PROGRAM_ID,
           accounts =
             [ \<lparr>address = data_storage_pda, role = WRITABLE\<rparr>,
               \<lparr>address = data_storage_authority, role = READONLY_SIGNER\<rparr>,
               \<lparr>address = funding_account, role = WRITABLE_SIGNER\<rparr>,
               \<lparr>address = SYSTEM_PROGRAM_ID, role = READONLY\<rparr> ],
           IInstruction.data = payload\<rparr>)"

definition getCloseDataStorageAccountInstruction ::
  "Address \<Rightarrow> Address \<Rightarrow> Address \<Rightarrow> codec_error + IInstruction" where
  "getCloseDataStorageAccountInstruction data_storage_pda data_storage_authority
       rent_exempt_receiver_account =
     (case getCloseDataStorageAccountInstructionDataEncoder () of
        Inl e \<Rightarrow> Inl e
      | Inr payload \<Rightarrow> Inr
          \<lparr>programAddress = DATA_STORAGE_PROGRAM_ID,
           accounts =
             [ \<lparr>address = data_storage_pda, role = WRITABLE\<rparr>,
               \<lparr>address = data_storage_authority, role = READONLY_SIGNER\<rparr>,
               \<lparr>address = rent_exempt_receiver_account, role = WRITABLE\<rparr> ],
           IInstruction.data = payload\<rparr>)"

subsection \<open>The platform's \<^verbatim>\<open>TextDecoder\<close>\<close>

text \<open>
  \<^verbatim>\<open>new TextDecoder()\<close> decodes UTF-8 without failing: a byte sequence that is not
  the encoding of a scalar value yields U+FFFD, and a byte order mark at the start is
  dropped. The decoder is the state machine of the Encoding standard, run over the bytes
  as numbers.
\<close>

record Utf8Decoder =
  codePoint :: nat
  bytesSeen :: nat
  bytesNeeded :: nat
  lowerBoundary :: nat
  upperBoundary :: nat

definition utf8Initial :: Utf8Decoder where
  "utf8Initial =
     \<lparr>codePoint = 0, bytesSeen = 0, bytesNeeded = 0, lowerBoundary = 0x80, upperBoundary = 0xBF\<rparr>"

text \<open>The handler when no byte is needed: the byte starts a sequence.\<close>

definition utf8Lead :: "nat \<Rightarrow> nat list \<times> Utf8Decoder" where
  "utf8Lead b =
     (if b \<le> 0x7F then ([b], utf8Initial)
      else if 0xC2 \<le> b \<and> b \<le> 0xDF then
        ([], utf8Initial\<lparr>bytesNeeded := 1, codePoint := b mod 32\<rparr>)
      else if 0xE0 \<le> b \<and> b \<le> 0xEF then
        ([], utf8Initial\<lparr>lowerBoundary := (if b = 0xE0 then 0xA0 else 0x80),
                         upperBoundary := (if b = 0xED then 0x9F else 0xBF),
                         bytesNeeded := 2, codePoint := b mod 16\<rparr>)
      else if 0xF0 \<le> b \<and> b \<le> 0xF4 then
        ([], utf8Initial\<lparr>lowerBoundary := (if b = 0xF0 then 0x90 else 0x80),
                         upperBoundary := (if b = 0xF4 then 0x8F else 0xBF),
                         bytesNeeded := 3, codePoint := b mod 8\<rparr>)
      else ([0xFFFD], utf8Initial))"

text \<open>
  The handler: a byte outside the boundaries ends the sequence with U+FFFD and is read
  again as the start of a sequence.
\<close>

definition utf8Handler :: "Utf8Decoder \<Rightarrow> nat \<Rightarrow> nat list \<times> Utf8Decoder" where
  "utf8Handler st b =
     (if bytesNeeded st = 0 then utf8Lead b
      else if b < lowerBoundary st \<or> upperBoundary st < b then
        (case utf8Lead b of (out, st') \<Rightarrow> (0xFFFD # out, st'))
      else
        let cp = codePoint st * 64 + b mod 64; seen = bytesSeen st + 1
        in if seen \<noteq> bytesNeeded st then
             ([], st\<lparr>lowerBoundary := 0x80, upperBoundary := 0xBF, codePoint := cp,
                     bytesSeen := seen\<rparr>)
           else ([cp], utf8Initial))"

fun utf8Run :: "Utf8Decoder \<Rightarrow> byte list \<Rightarrow> nat list" where
  "utf8Run st [] = (if bytesNeeded st \<noteq> 0 then [0xFFFD] else [])"
| "utf8Run st (b # bs) = (case utf8Handler st (unat b) of (out, st') \<Rightarrow> out @ utf8Run st' bs)"

definition stripBOM :: "nat list \<Rightarrow> nat list" where
  "stripBOM cs = (case cs of [] \<Rightarrow> [] | c # rest \<Rightarrow> if c = 0xFEFF then rest else cs)"

definition utf16Units :: "nat \<Rightarrow> 16 word list" where
  "utf16Units c =
     (if c < 0x10000 then [of_nat c]
      else [of_nat (0xD800 + (c - 0x10000) div 0x400), of_nat (0xDC00 + (c - 0x10000) mod 0x400)])"

definition TextDecoder_decode :: "byte list \<Rightarrow> js_string" where
  "TextDecoder_decode bytes = concat (map utf16Units (stripBOM (utf8Run utf8Initial bytes)))"

definition removeNullCharacters :: "js_string \<Rightarrow> js_string" where
  "removeNullCharacters s = filter (\<lambda>u. u \<noteq> 0) s"

subsection \<open>Decoder combinators\<close>

text \<open>
  A decoder reads a value from the bytes at an offset and returns it with the offset after
  it, or throws.
\<close>

type_synonym 'a Decoder = "byte list \<Rightarrow> nat \<Rightarrow> codec_error + ('a \<times> nat)"

definition decode :: "'a Decoder \<Rightarrow> byte list \<Rightarrow> codec_error + 'a" where
  "decode decoder bytes = (case decoder bytes 0 of Inl e \<Rightarrow> Inl e | Inr (v, _) \<Rightarrow> Inr v)"

text \<open>The number read from bytes in little-endian order.\<close>

fun littleEndian :: "byte list \<Rightarrow> nat" where
  "littleEndian [] = 0"
| "littleEndian (b # bs) = unat b + 256 * littleEndian bs"

definition numberDecoder :: "nat \<Rightarrow> (byte list \<Rightarrow> 'a) \<Rightarrow> 'a Decoder" where
  "numberDecoder size_n get bytes offset =
     (if length bytes \<le> offset then Inl CANNOT_DECODE_EMPTY_BYTE_ARRAY
      else if length bytes - offset < size_n then Inl INVALID_BYTE_LENGTH
      else Inr (get (take size_n (drop offset bytes)), offset + size_n))"

definition getU8Decoder :: "int Decoder" where
  "getU8Decoder = numberDecoder 1 (\<lambda>view. int (littleEndian view))"

definition getU16Decoder :: "int Decoder" where
  "getU16Decoder = numberDecoder 2 (\<lambda>view. int (littleEndian view))"

definition getI64Decoder :: "int Decoder" where
  "getI64Decoder = numberDecoder 8
     (\<lambda>view. let n = int (littleEndian view) in if n < 2 ^ 63 then n else n - 2 ^ 64)"

definition transformDecoder :: "'a Decoder \<Rightarrow> ('a \<Rightarrow> 'b) \<Rightarrow> 'b Decoder" where
  "transformDecoder decoder f bytes offset =
     (case decoder bytes offset of
        Inl e \<Rightarrow> Inl e
      | Inr (v, newOffset) \<Rightarrow> Inr (f v, newOffset))"

definition getBooleanDecoder :: "bool Decoder" where
  "getBooleanDecoder = transformDecoder getU8Decoder (\<lambda>v. v = 1)"

definition getUtf8Decoder :: "js_string Decoder" where
  "getUtf8Decoder bytes offset =
     Inr (removeNullCharacters (TextDecoder_decode (drop offset bytes)), length bytes)"

text \<open>
  A decoder of a fixed size checks that the bytes are there and gives the inner decoder
  exactly that slice. Both inner decoders below are of variable size.
\<close>

definition fixDecoderSize :: "'a Decoder \<Rightarrow> nat \<Rightarrow> 'a Decoder" where
  "fixDecoderSize decoder fixedBytes bytes offset =
     (if length bytes - offset < fixedBytes then Inl INVALID_BYTE_LENGTH
      else
        let slice = (if offset > 0 \<or> length bytes > fixedBytes
                     then take fixedBytes (drop offset bytes) else bytes)
        in case decoder slice 0 of
             Inl e \<Rightarrow> Inl e
           | Inr (v, _) \<Rightarrow> Inr (v, offset + fixedBytes))"

text \<open>The base-58 rendering of bytes, which is how an address is shown.\<close>

definition base58Alphabet :: string where
  "base58Alphabet = ''123456789ABCDEFGHJKLMNPQRSTUVWXYZabcdefghijkmnopqrstuvwxyz''"

function getBaseXFromBigInt :: "nat \<Rightarrow> string \<Rightarrow> string" where
  "getBaseXFromBigInt v tailChars =
     (if v > 0 then getBaseXFromBigInt (v div 58) (base58Alphabet ! (v mod 58) # tailChars)
      else tailChars)"
  by pat_completeness auto
termination
  by (relation "measure (\<lambda>(v, tailChars). v)") auto

text \<open>The equation of the loop is unfolded by hand, one iteration at a time.\<close>

declare getBaseXFromBigInt.simps [simp del]

definition getBase58Decoder :: "string Decoder" where
  "getBase58Decoder rawBytes offset =
     (let bytes = drop offset rawBytes in
      if bytes = [] then Inr ([], 0)
      else
        let trailIndex = length (takeWhile (\<lambda>n. n = 0) bytes);
            leadingZeroes = replicate trailIndex (base58Alphabet ! 0)
        in if trailIndex = length bytes then Inr (leadingZeroes, length rawBytes)
           else
             let base10Number = foldl (\<lambda>sum byte. sum * 256 + unat byte) 0 (drop trailIndex bytes)
             in Inr (leadingZeroes @ getBaseXFromBigInt base10Number [], length rawBytes))"

definition getAddressDecoder :: "Address Decoder" where
  "getAddressDecoder = fixDecoderSize getBase58Decoder 32"

fun readItems :: "'a Decoder \<Rightarrow> nat \<Rightarrow> 'a list Decoder" where
  "readItems item 0 bytes offset = Inr ([], offset)"
| "readItems item (Suc n) bytes offset =
     (case item bytes offset of
        Inl e \<Rightarrow> Inl e
      | Inr (v, newOffset) \<Rightarrow>
          (case readItems item n bytes newOffset of
             Inl e \<Rightarrow> Inl e
           | Inr (vs, lastOffset) \<Rightarrow> Inr (v # vs, lastOffset)))"

text \<open>
  The array decoder whose number of items is read by a number decoder,
  \<^verbatim>\<open>{ size: getU16Decoder() }\<close>. When no byte is left at the offset it returns the
  empty array without reading the size.
\<close>

definition getArrayDecoder :: "'a Decoder \<Rightarrow> int Decoder \<Rightarrow> 'a list Decoder" where
  "getArrayDecoder item size_d bytes offset =
     (if drop offset bytes = [] then Inr ([], offset)
      else case size_d bytes offset of
             Inl e \<Rightarrow> Inl e
           | Inr (resolvedSize, newOffset) \<Rightarrow> readItems item (nat resolvedSize) bytes newOffset)"

text \<open>
  \<^verbatim>\<open>getStructDecoder\<close> reads the fields in order, each from where the last one
  ended, and returns the struct with the last offset. The fields have different types, so
  the struct decoder is written as the chain of its field decoders, closed by the struct.
\<close>

definition thenRead :: "'a Decoder \<Rightarrow> ('a \<Rightarrow> 'b Decoder) \<Rightarrow> 'b Decoder" where
  "thenRead decoder rest bytes offset =
     (case decoder bytes offset of
        Inl e \<Rightarrow> Inl e
      | Inr (v, newOffset) \<Rightarrow> rest v bytes newOffset)"

definition struct :: "'s \<Rightarrow> 's Decoder" where
  "struct s bytes offset = Inr (s, offset)"

subsection \<open>The account\<close>

record DataStorageAccount =
  authority :: Address
  label :: js_string
  lastUpdated :: int
  canonicalBump :: int
  isInitialized :: bool
  data :: "int list"

definition getDataStorageAccountDecoder :: "DataStorageAccount Decoder" where
  "getDataStorageAccountDecoder =
     thenRead getAddressDecoder (\<lambda>authority'.
     thenRead (fixDecoderSize getUtf8Decoder 30) (\<lambda>label'.
     thenRead getI64Decoder (\<lambda>lastUpdated'.
     thenRead getU8Decoder (\<lambda>canonicalBump'.
     thenRead getBooleanDecoder (\<lambda>isInitialized'.
     thenRead (getArrayDecoder getU8Decoder getU16Decoder) (\<lambda>data'.
     struct \<lparr>authority = authority', DataStorageAccount.label = label',
             lastUpdated = lastUpdated', canonicalBump = canonicalBump',
             isInitialized = isInitialized', DataStorageAccount.data = data'\<rparr>))))))"

subsection \<open>The account as the program stores it\<close>

text \<open>
  Modelled from the spec: the ledger program, the only writer of an account, is not among
  the sources. An account as section 3 of the specification describes it: a 32-byte
  authority, a label, a signed 64-bit time, a one-byte bump, a flag and the data.
\<close>

record StoredAccount =
  storedAuthority :: "byte list"
  storedLabel :: js_string
  storedLastUpdated :: "64 word"
  storedCanonicalBump :: byte
  storedIsInitialized :: bool
  storedData :: "byte list"

fun littleEndianBytes :: "nat \<Rightarrow> nat \<Rightarrow> byte list" where
  "littleEndianBytes 0 n = []"
| "littleEndianBytes (Suc k) n = of_nat (n mod 256) # littleEndianBytes k (n div 256)"

text \<open>
  Modelled from the spec: the serialization of section 4.1, which the ledger program
  performs: authority (32), label (UTF-8, padded with zero bytes or truncated to 30
  bytes), lastUpdated (8, little-endian), canonicalBump (1), isInitialized (1), the length
  of the data (2, little-endian) and the data.
\<close>

definition serializeAccount :: "StoredAccount \<Rightarrow> byte list" where
  "serializeAccount a =
     storedAuthority a
     @ (take 30 (TextEncoder_encode (storedLabel a))
        @ replicate (30 - length (TextEncoder_encode (storedLabel a))) 0)
     @ littleEndianBytes 8 (unat (storedLastUpdated a))
     @ [storedCanonicalBump a]
     @ [if storedIsInitialized a then 1 else 0]
     @ littleEndianBytes 2 (length (storedData a))
     @ storedData a"

text \<open>
  A string is well formed when every surrogate is part of a pair
  (\<^verbatim>\<open>String.prototype.isWellFormed\<close>).
\<close>

fun isWellFormed :: "js_string \<Rightarrow> bool" where
  "isWellFormed [] = True"
| "isWellFormed [u] = (\<not> isHighSurrogate u \<and> \<not> isLowSurrogate u)"
| "isWellFormed (u # v # rest) =
     (if isHighSurrogate u then isLowSurrogate v \<and> isWellFormed rest
      else \<not> isLowSurrogate u \<and> isWellFormed (v # rest))"

section \<open>Payload encoders\<close>

lemma encodeItems_bytes: "encodeItems getU8Encoder (map uint (d :: byte list)) = Inr d"
proof (induction d)
  case Nil
  show ?case by simp
next
  case (Cons b d)
  have "uint b \<le> 255"
    using uint_lt2p [of b] by simp
  then have "getU8Encoder (uint b) = Inr [b]"
    by (simp add: getU8Encoder_def)
  with Cons show ?case by simp
qed

lemma label_slot:
  "fixEncoderSize getUtf8Encoder 30 l =
     Inr (take 30 (TextEncoder_encode l) @ replicate (30 - length (TextEncoder_encode l)) 0)"
  by (simp add: fixEncoderSize_def getUtf8Encoder_def Let_def)

lemma create_payload:
  "getCreateDataStorageAccountInstructionDataEncoder n v =
     (if length (CreateFields.data v) \<noteq> n then Inl INVALID_NUMBER_OF_ITEMS
      else case encodeItems getU8Encoder (CreateFields.data v) of
             Inl e \<Rightarrow> Inl e
           | Inr bs \<Rightarrow> Inr (0 # (take 30 (TextEncoder_encode (CreateFields.label v)) @
                 replicate (30 - length (TextEncoder_encode (CreateFields.label v))) 0) @ bs))"
  by (simp add: getCreateDataStorageAccountInstructionDataEncoder_def transformEncoder_def
      field_def label_slot getU8Encoder_def getArrayEncoder_def split: sum.splits)

lemma edit_payload:
  "getEditDataStorageAccountInstructionDataEncoder n v =
     (if length (EditFields.newData v) \<noteq> n then Inl INVALID_NUMBER_OF_ITEMS
      else case encodeItems getU8Encoder (EditFields.newData v) of
             Inl e \<Rightarrow> Inl e
           | Inr bs \<Rightarrow> Inr (1 # bs))"
  by (simp add: getEditDataStorageAccountInstructionDataEncoder_def transformEncoder_def
      field_def getU8Encoder_def getArrayEncoder_def split: sum.splits)

lemma close_payload: "getCloseDataStorageAccountInstructionDataEncoder v = Inr [2]"
  by (simp add: getCloseDataStorageAccountInstructionDataEncoder_def transformEncoder_def
      field_def getU8Encoder_def)

lemma hello_bytes:
  "TextEncoder_encode [0x68, 0x65, 0x6C, 0x6C, 0x6F] = [0x68, 0x65, 0x6C, 0x6C, 0x6F]"
  by (simp add: TextEncoder_encode_def utf8Bytes_def isHighSurrogate_def isLowSurrogate_def
      loneUnit_def)

lemma create_payload_bytes:
  "getCreateDataStorageAccountInstructionDataEncoder (length d)
       \<lparr>CreateFields.label = l, CreateFields.data = map uint d\<rparr> =
     Inr (0 # (take 30 (TextEncoder_encode l) @ replicate (30 - length (TextEncoder_encode l)) 0)
            @ d)"
  by (simp add: create_payload encodeItems_bytes)

lemma edit_payload_bytes:
  "getEditDataStorageAccountInstructionDataEncoder (length d)
       \<lparr>EditFields.newData = map uint d\<rparr> = Inr (1 # d)"
  by (simp add: edit_payload encodeItems_bytes)

text \<open>
  Claim C4. Whatever the caller's struct holds, its own discriminator included, an
  encoded Create payload starts with byte 0, an encoded Edit payload with byte 1 and an
  encoded Close payload with byte 2.
\<close>

theorem payload_discriminators:
  fixes v :: "'z CreateFields_scheme" and w :: "'y EditFields_scheme" and x :: 'a
  shows "(getCreateDataStorageAccountInstructionDataEncoder n v = Inr bs \<longrightarrow> take 1 bs = [0]) \<and>
         (getEditDataStorageAccountInstructionDataEncoder m w = Inr cs \<longrightarrow> take 1 cs = [1]) \<and>
         (getCloseDataStorageAccountInstructionDataEncoder x = Inr ds \<longrightarrow> take 1 ds = [2])"
  by (auto simp: create_payload edit_payload close_payload split: if_splits sum.splits)

theorem payload_discriminators_witness:
  "getCreateDataStorageAccountInstructionDataEncoder 3
       \<lparr>CreateFields.label = [0x68, 0x65, 0x6C, 0x6C, 0x6F], CreateFields.data = [1, 2, 3],
        CreateStruct.discriminator = 9\<rparr> =
     Inr ([0, 0x68, 0x65, 0x6C, 0x6C, 0x6F] @ replicate 25 0 @ [1, 2, 3]) \<and>
   take 1 ([0, 0x68, 0x65, 0x6C, 0x6C, 0x6F] @ replicate 25 0 @ [1, 2, 3 :: byte]) = [0] \<and>
   getEditDataStorageAccountInstructionDataEncoder 2
       \<lparr>EditFields.newData = [7, 8], EditStruct.discriminator = 0\<rparr> = Inr [1, 7, 8] \<and>
   take 1 [1, 7, 8 :: byte] = [1] \<and>
   getCloseDataStorageAccountInstructionDataEncoder \<lparr>CloseStruct.discriminator = 0\<rparr> = Inr [2] \<and>
   take 1 [2 :: byte] = [2]"
proof -
  have c: "getCreateDataStorageAccountInstructionDataEncoder 3
       \<lparr>CreateFields.label = [0x68, 0x65, 0x6C, 0x6C, 0x6F], CreateFields.data = [1, 2, 3],
        CreateStruct.discriminator = 9\<rparr> =
     Inr ([0, 0x68, 0x65, 0x6C, 0x6C, 0x6F] @ replicate 25 0 @ [1, 2, 3])"
    by (simp add: create_payload hello_bytes getU8Encoder_def)
  have e: "getEditDataStorageAccountInstructionDataEncoder 2
       \<lparr>EditFields.newData = [7, 8], EditStruct.discriminator = 0\<rparr> = Inr [1, 7, 8]"
    by (simp add: edit_payload getU8Encoder_def)
  have x: "getCloseDataStorageAccountInstructionDataEncoder \<lparr>CloseStruct.discriminator = 0\<rparr>
      = Inr [2]"
    by (simp add: close_payload)
  from payload_discriminators
         [where n = 3
            and v = "\<lparr>CreateFields.label = [0x68, 0x65, 0x6C, 0x6C, 0x6F],
                        CreateFields.data = [1, 2, 3], CreateStruct.discriminator = 9\<rparr>"
            and bs = "[0, 0x68, 0x65, 0x6C, 0x6C, 0x6F] @ replicate 25 0 @ [1, 2, 3]"
            and m = 2
            and w = "\<lparr>EditFields.newData = [7, 8], EditStruct.discriminator = 0\<rparr>"
            and cs = "[1, 7, 8]"
            and x = "\<lparr>CloseStruct.discriminator = 0\<rparr>" and ds = "[2]"]
       c e x
  show ?thesis by simp
qed

section \<open>Instruction builders\<close>

lemma create_instruction:
  "getCreateDataStorageAccountInstruction pda auth funding l d =
     Inr \<lparr>programAddress = DATA_STORAGE_PROGRAM_ID,
          accounts = [ \<lparr>address = pda, role = WRITABLE\<rparr>,
                       \<lparr>address = auth, role = READONLY_SIGNER\<rparr>,
                       \<lparr>address = funding, role = WRITABLE_SIGNER\<rparr>,
                       \<lparr>address = SYSTEM_PROGRAM_ID, role = READONLY\<rparr> ],
          IInstruction.data =
            0 # (take 30 (TextEncoder_encode l) @ replicate (30 - length (TextEncoder_encode l)) 0)
              @ d\<rparr>"
  by (simp add: getCreateDataStorageAccountInstruction_def create_payload_bytes)

lemma edit_equal_instruction:
  "getEditDataStorageAccountWithNewDataLenIsEqualToOldDataLenInstruction pda auth new_data =
     Inr \<lparr>programAddress = DATA_STORAGE_PROGRAM_ID,
          accounts = [ \<lparr>address = pda, role = WRITABLE\<rparr>,
                       \<lparr>address = auth, role = READONLY_SIGNER\<rparr> ],
          IInstruction.data = 1 # new_data\<rparr>"
  by (simp add: getEditDataStorageAccountWithNewDataLenIsEqualToOldDataLenInstruction_def
      edit_payload_bytes)

lemma edit_less_instruction:
  "getEditDataStorageAccountWithNewDataLenLessIsThanOldDataLenInstruction pda auth receiver
       new_data =
     Inr \<lparr>programAddress = DATA_STORAGE_PROGRAM_ID,
          accounts = [ \<lparr>address = pda, role = WRITABLE\<rparr>,
                       \<lparr>address = auth, role = READONLY_SIGNER\<rparr>,
                       \<lparr>address = receiver, role = WRITABLE\<rparr> ],
          IInstruction.data = 1 # new_data\<rparr>"
  by (simp add: getEditDataStorageAccountWithNewDataLenLessIsThanOldDataLenInstruction_def
      edit_payload_bytes)

lemma edit_bigger_instruction:
  "getEditDataStorageAccountWithNewDataLenIsBiggerThanOldDataLenInstruction pda auth funding
       new_data =
     Inr \<lparr>programAddress = DATA_STORAGE_PROGRAM_ID,
          accounts = [ \<lparr>address = pda, role = WRITABLE\<rparr>,
                       \<lparr>address = auth, role = READONLY_SIGNER\<rparr>,
                       \<lparr>address = funding, role = WRITABLE_SIGNER\<rparr>,
                       \<lparr>address = SYSTEM_PROGRAM_ID, role = READONLY\<rparr> ],
          IInstruction.data = 1 # new_data\<rparr>"
  by (simp add: getEditDataStorageAccountWithNewDataLenIsBiggerThanOldDataLenInstruction_def
      edit_payload_bytes)

lemma close_instruction:
  "getCloseDataStorageAccountInstruction pda auth receiver =
     Inr \<lparr>programAddress = DATA_STORAGE_PROGRAM_ID,
          accounts = [ \<lparr>address = pda, role = WRITABLE\<rparr>,
                       \<lparr>address = auth, role = READONLY_SIGNER\<rparr>,
                       \<lparr>address = receiver, role = WRITABLE\<rparr> ],
          IInstruction.data = [2]\<rparr>"
  by (simp add: getCloseDataStorageAccountInstruction_def close_payload)

text \<open>
  Claim C1. The source has one builder for each outcome of comparing the length of the new
  data with the old length, and the caller picks the builder. For every old length and
  all new data, the builder that the comparison selects returns the account list of its
  variant: data-storage account (writable) and authority (read-only signer) when the
  lengths are equal; those two and the rent receiver (writable) when the new data is
  shorter; those two, the funding account (writable signer) and the system program
  (read-only) when it is longer. The payload of all three is byte 1 and the new data.
\<close>

theorem edit_variant_by_length:
  "(length new_data = old_len \<longrightarrow>
      getEditDataStorageAccountWithNewDataLenIsEqualToOldDataLenInstruction pda auth new_data =
        Inr \<lparr>programAddress = DATA_STORAGE_PROGRAM_ID,
             accounts = [ \<lparr>address = pda, role = WRITABLE\<rparr>,
                          \<lparr>address = auth, role = READONLY_SIGNER\<rparr> ],
             IInstruction.data = 1 # new_data\<rparr>) \<and>
   (length new_data < old_len \<longrightarrow>
      getEditDataStorageAccountWithNewDataLenLessIsThanOldDataLenInstruction pda auth receiver
          new_data =
        Inr \<lparr>programAddress = DATA_STORAGE_PROGRAM_ID,
             accounts = [ \<lparr>address = pda, role = WRITABLE\<rparr>,
                          \<lparr>address = auth, role = READONLY_SIGNER\<rparr>,
                          \<lparr>address = receiver, role = WRITABLE\<rparr> ],
             IInstruction.data = 1 # new_data\<rparr>) \<and>
   (length new_data > old_len \<longrightarrow>
      getEditDataStorageAccountWithNewDataLenIsBiggerThanOldDataLenInstruction pda auth funding
          new_data =
        Inr \<lparr>programAddress = DATA_STORAGE_PROGRAM_ID,
             accounts = [ \<lparr>address = pda, role = WRITABLE\<rparr>,
                          \<lparr>address = auth, role = READONLY_SIGNER\<rparr>,
                          \<lparr>address = funding, role = WRITABLE_SIGNER\<rparr>,
                          \<lparr>address = SYSTEM_PROGRAM_ID, role = READONLY\<rparr> ],
             IInstruction.data = 1 # new_data\<rparr>)"
  by (simp add: edit_equal_instruction edit_less_instruction edit_bigger_instruction)

theorem edit_variant_by_length_witness:
  "length [78, 12, 56, 42, 1, 120, 2, 77, 88, 99 :: byte] = 10 \<and>
   getEditDataStorageAccountWithNewDataLenIsEqualToOldDataLenInstruction ''pda'' ''auth''
       [78, 12, 56, 42, 1, 120, 2, 77, 88, 99] =
     Inr \<lparr>programAddress = DATA_STORAGE_PROGRAM_ID,
          accounts = [ \<lparr>address = ''pda'', role = WRITABLE\<rparr>,
                       \<lparr>address = ''auth'', role = READONLY_SIGNER\<rparr> ],
          IInstruction.data = [1, 78, 12, 56, 42, 1, 120, 2, 77, 88, 99]\<rparr> \<and>
   length [1, 2, 3, 4, 5 :: byte] < 10 \<and>
   getEditDataStorageAccountWithNewDataLenLessIsThanOldDataLenInstruction ''pda'' ''auth''
       ''receiver'' [1, 2, 3, 4, 5] =
     Inr \<lparr>programAddress = DATA_STORAGE_PROGRAM_ID,
          accounts = [ \<lparr>address = ''pda'', role = WRITABLE\<rparr>,
                       \<lparr>address = ''auth'', role = READONLY_SIGNER\<rparr>,
                       \<lparr>address = ''receiver'', role = WRITABLE\<rparr> ],
          IInstruction.data = [1, 1, 2, 3, 4, 5]\<rparr> \<and>
   length [1, 2, 3 :: byte] > 2 \<and>
   getEditDataStorageAccountWithNewDataLenIsBiggerThanOldDataLenInstruction ''pda'' ''auth''
       ''funding'' [1, 2, 3] =
     Inr \<lparr>programAddress = DATA_STORAGE_PROGRAM_ID,
          accounts = [ \<lparr>address = ''pda'', role = WRITABLE\<rparr>,
                       \<lparr>address = ''auth'', role = READONLY_SIGNER\<rparr>,
                       \<lparr>address = ''funding'', role = WRITABLE_SIGNER\<rparr>,
                       \<lparr>address = SYSTEM_PROGRAM_ID, role = READONLY\<rparr> ],
          IInstruction.data = [1, 1, 2, 3]\<rparr>"
  using edit_variant_by_length
          [where new_data = "[78, 12, 56, 42, 1, 120, 2, 77, 88, 99]" and old_len = 10
             and pda = "''pda''" and auth = "''auth''"]
    edit_variant_by_length
          [where new_data = "[1, 2, 3, 4, 5]" and old_len = 10 and pda = "''pda''"
             and auth = "''auth''" and receiver = "''receiver''"]
    edit_variant_by_length
          [where new_data = "[1, 2, 3]" and old_len = 2 and pda = "''pda''"
             and auth = "''auth''" and funding = "''funding''"]
  by simp

text \<open>
  Claim C5. For all Create parameters the instruction has the accounts new account
  (writable), authority (read-only signer), funding account (writable signer) and system
  program (read-only), in this order, and its payload is the Create encoding of the label
  and the data: byte 0, the 30-byte label slot, and the data bytes as they are, with no
  length in front.
\<close>

theorem create_instruction_accounts_and_payload:
  "getCreateDataStorageAccountInstruction pda auth funding l d =
     Inr \<lparr>programAddress = DATA_STORAGE_PROGRAM_ID,
          accounts = [ \<lparr>address = pda, role = WRITABLE\<rparr>,
                       \<lparr>address = auth, role = READONLY_SIGNER\<rparr>,
                       \<lparr>address = funding, role = WRITABLE_SIGNER\<rparr>,
                       \<lparr>address = SYSTEM_PROGRAM_ID, role = READONLY\<rparr> ],
          IInstruction.data =
            0 # (take 30 (TextEncoder_encode l) @ replicate (30 - length (TextEncoder_encode l)) 0)
              @ d\<rparr> \<and>
   getCreateDataStorageAccountInstructionDataEncoder (length d)
       \<lparr>CreateFields.label = l, CreateFields.data = map uint d\<rparr> =
     Inr (0 # (take 30 (TextEncoder_encode l) @ replicate (30 - length (TextEncoder_encode l)) 0)
            @ d) \<and>
   SYSTEM_PROGRAM_ID = ''11111111111111111111111111111111''"
  by (simp add: create_instruction create_payload_bytes SYSTEM_PROGRAM_ID_def)

text \<open>
  Claim C6. For all Close parameters the instruction has the accounts data-storage account
  (writable), authority (read-only signer) and receiver of the rent-exempt balance
  (writable), in this order, and its payload is the single byte 2.
\<close>

theorem close_instruction_accounts_and_payload:
  "getCloseDataStorageAccountInstruction pda auth receiver =
     Inr \<lparr>programAddress = DATA_STORAGE_PROGRAM_ID,
          accounts = [ \<lparr>address = pda, role = WRITABLE\<rparr>,
                       \<lparr>address = auth, role = READONLY_SIGNER\<rparr>,
                       \<lparr>address = receiver, role = WRITABLE\<rparr> ],
          IInstruction.data = [2]\<rparr> \<and>
   getCloseDataStorageAccountInstructionDataEncoder () = Inr [2]"
  by (simp add: close_instruction close_payload)

text \<open>
  Claim C7. The label fills a slot of exactly 30 bytes: its UTF-8 bytes followed by zero
  bytes when they are at most 30, and their first 30 bytes, with no error, when they are
  more. For the label "hello" and the data 1, 2, 3 the Create payload is byte 0, the
  bytes 68 65 6C 6C 6F, 25 zero bytes and the bytes 01 02 03.
\<close>

theorem label_slot_pads_and_truncates:
  "fixEncoderSize getUtf8Encoder 30 l =
     Inr (if length (TextEncoder_encode l) \<le> 30
          then TextEncoder_encode l @ replicate (30 - length (TextEncoder_encode l)) 0
          else take 30 (TextEncoder_encode l)) \<and>
   getCreateDataStorageAccountInstructionDataEncoder 3
       \<lparr>CreateFields.label = [0x68, 0x65, 0x6C, 0x6C, 0x6F], CreateFields.data = [1, 2, 3]\<rparr> =
     Inr ([0x00] @ [0x68, 0x65, 0x6C, 0x6C, 0x6F] @ replicate 25 0 @ [0x01, 0x02, 0x03])"
  by (simp add: label_slot create_payload hello_bytes getU8Encoder_def)

text \<open>
  Claim C8. Every instruction of the five builders is addressed to the data-storage
  program, and its accounts start with the given data-storage account, writable, and the
  given authority, read-only signer.
\<close>

theorem builders_program_and_first_accounts:
  "(\<exists>ix more. getCreateDataStorageAccountInstruction pda auth funding l d = Inr ix \<and>
      programAddress ix = ''DSAgnFyNE53P9m5vz9ALojPQwbtaPjwzPa61ZN1oe7mG'' \<and>
      accounts ix = \<lparr>address = pda, role = WRITABLE\<rparr>
                    # \<lparr>address = auth, role = READONLY_SIGNER\<rparr> # more) \<and>
   (\<exists>ix more. getEditDataStorageAccountWithNewDataLenIsEqualToOldDataLenInstruction
                 pda auth d = Inr ix \<and>
      programAddress ix = ''DSAgnFyNE53P9m5vz9ALojPQwbtaPjwzPa61ZN1oe7mG'' \<and>
      accounts ix = \<lparr>address = pda, role = WRITABLE\<rparr>
                    # \<lparr>address = auth, role = READONLY_SIGNER\<rparr> # more) \<and>
   (\<exists>ix more. getEditDataStorageAccountWithNewDataLenLessIsThanOldDataLenInstruction
                 pda auth receiver d = Inr ix \<and>
      programAddress ix = ''DSAgnFyNE53P9m5vz9ALojPQwbtaPjwzPa61ZN1oe7mG'' \<and>
      accounts ix = \<lparr>address = pda, role = WRITABLE\<rparr>
                    # \<lparr>address = auth, role = READONLY_SIGNER\<rparr> # more) \<and>
   (\<exists>ix more. getEditDataStorageAccountWithNewDataLenIsBiggerThanOldDataLenInstruction
                 pda auth funding d = Inr ix \<and>
      programAddress ix = ''DSAgnFyNE53P9m5vz9ALojPQwbtaPjwzPa61ZN1oe7mG'' \<and>
      accounts ix = \<lparr>address = pda, role = WRITABLE\<rparr>
                    # \<lparr>address = auth, role = READONLY_SIGNER\<rparr> # more) \<and>
   (\<exists>ix more. getCloseDataStorageAccountInstruction pda auth receiver = Inr ix \<and>
      programAddress ix = ''DSAgnFyNE53P9m5vz9ALojPQwbtaPjwzPa61ZN1oe7mG'' \<and>
      accounts ix = \<lparr>address = pda, role = WRITABLE\<rparr>
                    # \<lparr>address = auth, role = READONLY_SIGNER\<rparr> # more)"
  by (simp add: create_instruction edit_equal_instruction edit_less_instruction
      edit_bigger_instruction close_instruction DATA_STORAGE_PROGRAM_ID_def)

text \<open>
  Claim C9. Through the builders, which size the encoder by the length of the array they
  pass, encoding never fails, and the payload has 31 bytes and the data for Create, one
  byte and the new data for Edit, and one byte for Close.
\<close>

theorem builder_payload_lengths:
  "(\<exists>ix. getCreateDataStorageAccountInstruction pda auth funding l d = Inr ix \<and>
      length (IInstruction.data ix) = 31 + length d) \<and>
   (\<exists>ix. getEditDataStorageAccountWithNewDataLenIsEqualToOldDataLenInstruction pda auth d
            = Inr ix \<and>
      length (IInstruction.data ix) = 1 + length d) \<and>
   (\<exists>ix. getEditDataStorageAccountWithNewDataLenLessIsThanOldDataLenInstruction pda auth
            receiver d = Inr ix \<and>
      length (IInstruction.data ix) = 1 + length d) \<and>
   (\<exists>ix. getEditDataStorageAccountWithNewDataLenIsBiggerThanOldDataLenInstruction pda auth
            funding d = Inr ix \<and>
      length (IInstruction.data ix) = 1 + length d) \<and>
   (\<exists>ix. getCloseDataStorageAccountInstruction pda auth receiver = Inr ix \<and>
      length (IInstruction.data ix) = 1)"
  by (simp add: create_instruction edit_equal_instruction edit_less_instruction
      edit_bigger_instruction close_instruction)

section \<open>The account decoder\<close>

lemma base58_total:
  "getBase58Decoder bs off =
     Inr (fst (projr (getBase58Decoder bs off)), snd (projr (getBase58Decoder bs off)))"
  by (simp add: getBase58Decoder_def Let_def)

lemma fixDecoderSize_slice:
  "fixDecoderSize decoder n bytes off =
     (if length bytes - off < n then Inl INVALID_BYTE_LENGTH
      else case decoder (take n (drop off bytes)) 0 of
             Inl e \<Rightarrow> Inl e
           | Inr (v, _) \<Rightarrow> Inr (v, off + n))"
  by (auto simp: fixDecoderSize_def Let_def)

lemma address_read:
  "getAddressDecoder bytes off =
     (if length bytes - off < 32 then Inl INVALID_BYTE_LENGTH
      else Inr (fst (projr (getBase58Decoder (take 32 (drop off bytes)) 0)), off + 32))"
  unfolding getAddressDecoder_def fixDecoderSize_slice
  by (subst base58_total) (simp add: split_beta)

lemma label_read:
  "fixDecoderSize getUtf8Decoder 30 bytes off =
     (if length bytes - off < 30 then Inl INVALID_BYTE_LENGTH
      else Inr (removeNullCharacters (TextDecoder_decode (take 30 (drop off bytes))), off + 30))"
  by (simp add: fixDecoderSize_slice getUtf8Decoder_def)

lemma u8_read:
  "getU8Decoder bytes off =
     (if length bytes \<le> off then Inl CANNOT_DECODE_EMPTY_BYTE_ARRAY
      else Inr (uint (bytes ! off), off + 1))"
  by (auto simp: getU8Decoder_def numberDecoder_def take_Suc_conv_app_nth hd_drop_conv_nth
      take_Suc Cons_nth_drop_Suc [symmetric])

lemma readItems_u8:
  "off \<le> length bytes \<Longrightarrow>
   readItems getU8Decoder n bytes off =
     (if off + n \<le> length bytes then Inr (map uint (take n (drop off bytes)), off + n)
      else Inl CANNOT_DECODE_EMPTY_BYTE_ARRAY)"
proof (induction n arbitrary: off)
  case 0
  then show ?case by simp
next
  case (Suc n)
  show ?case
  proof (cases "off < length bytes")
    case True
    then have "drop off bytes = bytes ! off # drop (Suc off) bytes"
      by (simp add: Cons_nth_drop_Suc)
    with True Suc.IH [of "Suc off"] show ?thesis
      by (simp add: u8_read)
  next
    case False
    then show ?thesis by (simp add: u8_read)
  qed
qed

lemma diff_less_add: "0 < n \<Longrightarrow> (a - b < n) = (a < b + (n::nat))"
  by arith

lemma account_header:
  "72 \<le> length bytes \<Longrightarrow>
   getDataStorageAccountDecoder bytes 0 =
     (case getArrayDecoder getU8Decoder getU16Decoder bytes 72 of
        Inl e \<Rightarrow> Inl e
      | Inr (d, off) \<Rightarrow> Inr
          (\<lparr>authority = fst (projr (getBase58Decoder (take 32 bytes) 0)),
            DataStorageAccount.label =
              removeNullCharacters (TextDecoder_decode (take 30 (drop 32 bytes))),
            lastUpdated =
              (let n = int (littleEndian (take 8 (drop 62 bytes)))
               in if n < 2 ^ 63 then n else n - 2 ^ 64),
            canonicalBump = uint (bytes ! 70),
            isInitialized = (uint (bytes ! 71) = 1),
            DataStorageAccount.data = d\<rparr>, off))"
  by (simp add: getDataStorageAccountDecoder_def thenRead_def struct_def address_read label_read
      u8_read getI64Decoder_def numberDecoder_def getBooleanDecoder_def transformDecoder_def
      diff_less_add Let_def split: sum.splits prod.splits)

lemma account_short:
  "length bytes < 72 \<Longrightarrow> isl (getDataStorageAccountDecoder bytes 0)"
  by (simp add: getDataStorageAccountDecoder_def thenRead_def struct_def address_read label_read
      u8_read getI64Decoder_def numberDecoder_def getBooleanDecoder_def transformDecoder_def
      diff_less_add Let_def split: sum.splits prod.splits)

lemma data_read:
  "72 \<le> length bytes \<Longrightarrow>
   getArrayDecoder getU8Decoder getU16Decoder bytes 72 =
     (if length bytes = 72 then Inr ([], 72)
      else if length bytes = 73 then Inl INVALID_BYTE_LENGTH
      else if length bytes < 74 + littleEndian (take 2 (drop 72 bytes))
        then Inl CANNOT_DECODE_EMPTY_BYTE_ARRAY
      else Inr (map uint (take (littleEndian (take 2 (drop 72 bytes))) (drop 74 bytes)),
                74 + littleEndian (take 2 (drop 72 bytes))))"
  by (simp add: getArrayDecoder_def getU16Decoder_def numberDecoder_def readItems_u8 diff_less_add)

lemma slice_of_prefix:
  "j + k \<le> m \<Longrightarrow> m \<le> length bs \<Longrightarrow> take k (drop j (take m bs @ extra)) = take k (drop j bs)"
proof -
  assume jk: "j + k \<le> m" and m: "m \<le> length bs"
  then have "take k (drop j (take m bs @ extra)) = take k (drop j (take m bs))"
    by simp
  also have "\<dots> = take k (take (m - j) (drop j bs))"
    by (simp add: drop_take)
  also have "\<dots> = take k (drop j bs)"
    using jk by (simp add: min_absorb1)
  finally show ?thesis .
qed

lemma nth_of_prefix:
  "i < m \<Longrightarrow> m \<le> length bs \<Longrightarrow> (take m bs @ extra) ! i = bs ! i"
  by (simp add: nth_append)

lemma account_decode_long:
  assumes "74 + littleEndian (take 2 (drop 72 bytes)) \<le> length bytes"
  shows "decode getDataStorageAccountDecoder bytes = Inr
          \<lparr>authority = fst (projr (getBase58Decoder (take 32 bytes) 0)),
            DataStorageAccount.label =
              removeNullCharacters (TextDecoder_decode (take 30 (drop 32 bytes))),
            lastUpdated =
              (let n = int (littleEndian (take 8 (drop 62 bytes)))
               in if n < 2 ^ 63 then n else n - 2 ^ 64),
            canonicalBump = uint (bytes ! 70),
            isInitialized = (uint (bytes ! 71) = 1),
            DataStorageAccount.data =
              map uint (take (littleEndian (take 2 (drop 72 bytes))) (drop 74 bytes))\<rparr>"
  using assms by (simp add: decode_def account_header data_read)

lemma account_decode_72:
  assumes "length bytes = 72"
  shows "decode getDataStorageAccountDecoder bytes = Inr
          \<lparr>authority = fst (projr (getBase58Decoder (take 32 bytes) 0)),
            DataStorageAccount.label =
              removeNullCharacters (TextDecoder_decode (take 30 (drop 32 bytes))),
            lastUpdated =
              (let n = int (littleEndian (take 8 (drop 62 bytes)))
               in if n < 2 ^ 63 then n else n - 2 ^ 64),
            canonicalBump = uint (bytes ! 70),
            isInitialized = (uint (bytes ! 71) = 1),
            DataStorageAccount.data = []\<rparr>"
  using assms by (simp add: decode_def account_header data_read)

lemma isl_decode: "isl (decode decoder bytes) = isl (decoder bytes 0)"
  by (simp add: decode_def split: sum.splits prod.splits)

text \<open>
  Claim C2 (as amended). Decoding fails exactly when the input has fewer than 72 bytes, or
  has 73 bytes, or has at least 74 bytes and the 2-byte little-endian length at offset 72
  exceeds the number of bytes after it. An input of exactly 72 bytes, with no length
  field, decodes to an account with empty data: the array decoder returns the empty
  array when no byte is left at its offset. Decoding a 74-byte buffer whose length field
  is 2 fails.
\<close>

theorem account_decode_fails_iff:
  "isl (decode getDataStorageAccountDecoder bytes) =
     (length bytes < 72 \<or> length bytes = 73 \<or>
      (74 \<le> length bytes \<and> length bytes - 74 < littleEndian (take 2 (drop 72 bytes)))) \<and>
   isl (decode getDataStorageAccountDecoder (replicate 72 0 @ [2, 0]))"
proof -
  have general: "isl (decode getDataStorageAccountDecoder bs) =
     (length bs < 72 \<or> length bs = 73 \<or>
      (74 \<le> length bs \<and> length bs - 74 < littleEndian (take 2 (drop 72 bs))))" for bs
  proof (cases "length bs < 72")
    case True
    then show ?thesis by (simp add: isl_decode account_short)
  next
    case False
    then have "72 \<le> length bs" by simp
    then show ?thesis
      by (auto simp: isl_decode account_header data_read split: if_splits)
  qed
  have "isl (decode getDataStorageAccountDecoder (replicate 72 0 @ [2, 0]))"
    unfolding general by simp
  with general [of bytes] show ?thesis by simp
qed

text \<open>
  Claim C10. Decoding succeeds on every input that has at least 74 bytes plus as many as
  its length field declares, and the result is that of the first 74 bytes plus the
  declared number: whatever follows them is ignored.
\<close>

theorem account_decode_ignores_trailing_bytes:
  assumes "74 + littleEndian (take 2 (drop 72 bytes)) \<le> length bytes"
  shows "\<exists>account. decode getDataStorageAccountDecoder bytes = Inr account \<and>
           (\<forall>extra. decode getDataStorageAccountDecoder
                      (take (74 + littleEndian (take 2 (drop 72 bytes))) bytes @ extra)
                    = Inr account)"
proof -
  let ?n = "littleEndian (take 2 (drop 72 bytes))"
  let ?m = "74 + ?n"
  have same: "decode getDataStorageAccountDecoder (take ?m bytes @ extra) =
              decode getDataStorageAccountDecoder bytes" for extra
  proof -
    let ?bs = "take ?m bytes @ extra"
    have "take 2 (drop 72 ?bs) = take 2 (drop 72 bytes)"
      using assms by (intro slice_of_prefix) simp_all
    then have size: "littleEndian (take 2 (drop 72 ?bs)) = ?n"
      by simp
    have long: "74 + littleEndian (take 2 (drop 72 ?bs)) \<le> length ?bs"
      using assms unfolding size by simp
    have d: "take ?n (drop 74 ?bs) = take ?n (drop 74 bytes)"
      using assms by (intro slice_of_prefix) simp_all
    have "take 32 (drop 0 ?bs) = take 32 (drop 0 bytes)"
      using assms by (intro slice_of_prefix) simp_all
    then have a: "take 32 ?bs = take 32 bytes"
      by simp
    have l: "take 30 (drop 32 ?bs) = take 30 (drop 32 bytes)"
      using assms by (intro slice_of_prefix) simp_all
    have t: "take 8 (drop 62 ?bs) = take 8 (drop 62 bytes)"
      using assms by (intro slice_of_prefix) simp_all
    have b: "?bs ! 70 = bytes ! 70" "?bs ! 71 = bytes ! 71"
      using assms by (simp_all add: nth_append)
    show ?thesis
      unfolding account_decode_long [OF long] account_decode_long [OF assms] size d a l t b ..
  qed
  show ?thesis
    using account_decode_long [OF assms] same by simp
qed

lemma utf8Run_zeros: "utf8Run utf8Initial (replicate k 0) = replicate k 0"
  by (induction k) (simp_all add: utf8Handler_def utf8Lead_def utf8Initial_def)

lemma TextDecoder_zeros: "TextDecoder_decode (replicate k 0) = replicate k 0"
proof -
  have "stripBOM (replicate k 0) = replicate k 0"
    by (cases k) (simp_all add: stripBOM_def)
  moreover have "concat (map utf16Units (replicate k 0)) = replicate k 0"
    by (induction k) (simp_all add: utf16Units_def)
  ultimately show ?thesis
    by (simp add: TextDecoder_decode_def utf8Run_zeros)
qed

lemma littleEndian_zeros: "littleEndian (replicate k 0) = 0"
  by (induction k) simp_all

lemma base58_zeros:
  "0 < k \<Longrightarrow> getBase58Decoder (replicate k 0) 0 = Inr (replicate k CHR ''1'', k)"
  by (simp add: getBase58Decoder_def Let_def base58Alphabet_def)

text \<open>
  The claim C2 as it is written, "decoding fails when the input is shorter than the
  74-byte prefix", is false for the 72 zero bytes: they decode.
\<close>

theorem account_of_72_bytes_counterexample:
  "length (replicate 72 (0 :: byte)) < 74 \<and>
   decode getDataStorageAccountDecoder (replicate 72 0) =
     Inr \<lparr>authority = replicate 32 CHR ''1'', DataStorageAccount.label = [], lastUpdated = 0,
          canonicalBump = 0, isInitialized = False, DataStorageAccount.data = []\<rparr>"
  by (simp add: account_decode_72 base58_zeros TextDecoder_zeros littleEndian_zeros
      removeNullCharacters_def)

theorem account_decode_ignores_trailing_bytes_witness:
  "74 + littleEndian (take 2 (drop 72 (replicate 72 0 @ [1, 0, 9, 5, 5]))) \<le>
     length (replicate 72 (0 :: byte) @ [1, 0, 9, 5, 5]) \<and>
   (\<exists>account. decode getDataStorageAccountDecoder (replicate 72 0 @ [1, 0, 9, 5, 5]) = Inr account \<and>
      (\<forall>extra. decode getDataStorageAccountDecoder
                 (take (74 + littleEndian (take 2 (drop 72 (replicate 72 0 @ [1, 0, 9, 5, 5]))))
                    (replicate 72 0 @ [1, 0, 9, 5, 5]) @ extra)
               = Inr account))"
proof -
  have h: "74 + littleEndian (take 2 (drop 72 (replicate 72 0 @ [1, 0, 9, 5, 5]))) \<le>
     length (replicate 72 (0 :: byte) @ [1, 0, 9, 5, 5])"
    by simp
  from h account_decode_ignores_trailing_bytes [OF h] show ?thesis
    by blast
qed

section \<open>UTF-8: decoding what was encoded\<close>

lemma unat_byte: "n < 256 \<Longrightarrow> unat (of_nat n :: byte) = n"
  by (simp add: unat_of_nat)

lemma mod32: "a < 32 \<Longrightarrow> (192 + a) mod 32 = (a::nat)"
  using mod_mult_self4 [of 32 6 a] by simp

lemma mod64: "a < 64 \<Longrightarrow> (128 + a) mod 64 = (a::nat)"
  using mod_mult_self4 [of 64 2 a] by simp

lemma mod16: "a < 16 \<Longrightarrow> (224 + a) mod 16 = (a::nat)"
  using mod_mult_self4 [of 16 14 a] by simp

lemma mod8: "a < 8 \<Longrightarrow> (240 + a) mod 8 = (a::nat)"
  using mod_mult_self4 [of 8 30 a] by simp

lemma utf8_step1:
  assumes "c < 0x80"
  shows "utf8Run utf8Initial (utf8Bytes c @ rest) = c # utf8Run utf8Initial rest"
  using assms by (simp add: utf8Bytes_def utf8Handler_def utf8Lead_def utf8Initial_def unat_byte)

lemma utf8_step2:
  assumes "0x80 \<le> c" "c < 0x800"
  shows "utf8Run utf8Initial (utf8Bytes c @ rest) = c # utf8Run utf8Initial rest"
proof -
  define a where "a = c div 64"
  define d where "d = c mod 64"
  have c: "a * 64 + d = c"
    by (simp add: a_def d_def)
  have d: "d < 64"
    by (simp add: d_def)
  have a: "2 \<le> a" "a < 32"
    using assms unfolding a_def by linarith+
  have b1: "unat (192 + word_of_nat a :: byte) = 192 + a"
    and b2: "unat (128 + word_of_nat d :: byte) = 128 + d"
    using a d unat_byte [of "192 + a"] unat_byte [of "128 + d"] by simp_all
  have "utf8Bytes c = [of_nat (192 + a), of_nat (128 + d)]"
    using assms by (simp add: utf8Bytes_def a_def d_def)
  then show ?thesis
    using a d by (simp add: utf8Handler_def utf8Lead_def utf8Initial_def b1 b2 mod32 mod64 c)
qed

lemma utf8_step3:
  assumes "0x800 \<le> c" "c < 0x10000" "c < 0xD800 \<or> 0xE000 \<le> c"
  shows "utf8Run utf8Initial (utf8Bytes c @ rest) = c # utf8Run utf8Initial rest"
proof -
  define a where "a = c div 4096"
  define b where "b = c div 64 mod 64"
  define d where "d = c mod 64"
  have "c div 4096 = c div 64 div 64"
    using div_mult2_eq [of c 64 64] by simp
  then have cd: "c div 64 = a * 64 + b"
    by (simp add: a_def b_def)
  have "c = c div 64 * 64 + d"
    by (simp add: d_def)
  then have c: "(a * 64 + b) * 64 + d = c"
    by (simp add: cd)
  have d: "d < 64" and b: "b < 64"
    by (simp_all add: d_def b_def)
  have a: "a < 16"
    using assms unfolding a_def by linarith
  have flat: "a * 4096 + b * 64 + d = c"
    using c by simp
  have lo: "a = 0 \<Longrightarrow> 32 \<le> b"
    using assms flat b d by linarith
  have hi: "a = 13 \<Longrightarrow> b < 32"
    using assms flat b d by linarith
  have b1: "unat (224 + word_of_nat a :: byte) = 224 + a"
    and b2: "unat (128 + word_of_nat b :: byte) = 128 + b"
    and b3: "unat (128 + word_of_nat d :: byte) = 128 + d"
    using a b d unat_byte [of "224 + a"] unat_byte [of "128 + b"] unat_byte [of "128 + d"]
    by simp_all
  have "utf8Bytes c = [of_nat (224 + a), of_nat (128 + b), of_nat (128 + d)]"
    using assms by (simp add: utf8Bytes_def a_def b_def d_def)
  then show ?thesis
    using a b d lo hi flat
    by (auto simp: utf8Handler_def utf8Lead_def utf8Initial_def b1 b2 b3 mod16 mod64)
qed

lemma utf8_step4:
  assumes "0x10000 \<le> c" "c < 0x110000"
  shows "utf8Run utf8Initial (utf8Bytes c @ rest) = c # utf8Run utf8Initial rest"
proof -
  define a where "a = c div 262144"
  define b where "b = c div 4096 mod 64"
  define e where "e = c div 64 mod 64"
  define d where "d = c mod 64"
  have "c div 4096 = c div 64 div 64"
    using div_mult2_eq [of c 64 64] by simp
  then have cd: "c div 64 = c div 4096 * 64 + e"
    by (simp add: e_def)
  have "c div 262144 = c div 4096 div 64"
    using div_mult2_eq [of c 4096 64] by simp
  then have ce: "c div 4096 = a * 64 + b"
    by (simp add: a_def b_def)
  have "c = c div 64 * 64 + d"
    by (simp add: d_def)
  then have c: "((a * 64 + b) * 64 + e) * 64 + d = c"
    by (simp add: cd ce)
  have d: "d < 64" and b: "b < 64" and e: "e < 64"
    by (simp_all add: d_def b_def e_def)
  have a: "a < 5"
    using assms unfolding a_def by linarith
  have flat: "a * 262144 + b * 4096 + e * 64 + d = c"
    using c by simp
  have lo: "a = 0 \<Longrightarrow> 16 \<le> b"
    using assms flat b d e by linarith
  have hi: "a = 4 \<Longrightarrow> b < 16"
    using assms flat b d e by linarith
  have b1: "unat (240 + word_of_nat a :: byte) = 240 + a"
    and b2: "unat (128 + word_of_nat b :: byte) = 128 + b"
    and b3: "unat (128 + word_of_nat e :: byte) = 128 + e"
    and b4: "unat (128 + word_of_nat d :: byte) = 128 + d"
    using a b d e unat_byte [of "240 + a"] unat_byte [of "128 + b"] unat_byte [of "128 + e"]
      unat_byte [of "128 + d"]
    by simp_all
  have "utf8Bytes c = [of_nat (240 + a), of_nat (128 + b), of_nat (128 + e), of_nat (128 + d)]"
    using assms by (simp add: utf8Bytes_def a_def b_def d_def e_def)
  then show ?thesis
    using a b d e lo hi flat
    by (auto simp: utf8Handler_def utf8Lead_def utf8Initial_def b1 b2 b3 b4 mod8 mod64)
qed

lemma utf8_step:
  assumes "isScalarValue c"
  shows "utf8Run utf8Initial (utf8Bytes c @ rest) = c # utf8Run utf8Initial rest"
proof -
  consider "c < 0x80" | "0x80 \<le> c" "c < 0x800" | "0x800 \<le> c" "c < 0x10000" | "0x10000 \<le> c"
    by linarith
  then show ?thesis
  proof cases
    case 1
    then show ?thesis by (rule utf8_step1)
  next
    case 2
    then show ?thesis by (rule utf8_step2)
  next
    case 3
    with assms show ?thesis by (intro utf8_step3) (auto simp: isScalarValue_def)
  next
    case 4
    with assms show ?thesis by (intro utf8_step4) (auto simp: isScalarValue_def)
  qed
qed

lemma utf8Run_scalars:
  "list_all isScalarValue cs \<Longrightarrow>
   utf8Run utf8Initial (concat (map utf8Bytes cs) @ rest) = cs @ utf8Run utf8Initial rest"
  by (induction cs) (simp_all add: utf8_step)

lemma high_nat: "isHighSurrogate u = (55296 \<le> unat u \<and> unat u \<le> 56319)"
  by (simp add: isHighSurrogate_def word_le_nat_alt)

lemma low_nat: "isLowSurrogate u = (56320 \<le> unat u \<and> unat u \<le> 57343)"
  by (simp add: isLowSurrogate_def word_le_nat_alt)

lemma unit_bound: "unat (u :: 16 word) < 65536"
  using unsigned_less [of u, where ?'a = nat] by simp

lemma scalar_loneUnit: "isScalarValue (loneUnit u)"
  using unit_bound [of u] by (auto simp: loneUnit_def isScalarValue_def high_nat low_nat)

lemma scalar_pair:
  "isHighSurrogate u \<Longrightarrow> isLowSurrogate v \<Longrightarrow>
   isScalarValue (0x10000 + (unat u - 0xD800) * 0x400 + (unat v - 0xDC00))"
  by (auto simp: isScalarValue_def high_nat low_nat)

lemma scalarValues_scalar: "list_all isScalarValue (scalarValues s)"
  by (induction s rule: scalarValues.induct) (simp_all add: scalar_loneUnit scalar_pair)

lemma utf16_pair:
  assumes "isHighSurrogate u" "isLowSurrogate v"
  shows "utf16Units (0x10000 + (unat u - 0xD800) * 0x400 + (unat v - 0xDC00)) = [u, v]"
proof -
  define x where "x = unat u - 0xD800"
  define y where "y = unat v - 0xDC00"
  have x: "unat u = 0xD800 + x" and y: "unat v = 0xDC00 + y" and y': "y < 0x400"
    using assms by (auto simp: x_def y_def high_nat low_nat)
  have "(x * 0x400 + y) div 0x400 = x" "(x * 0x400 + y) mod 0x400 = y"
    using y' by simp_all
  then have "utf16Units (0x10000 + x * 0x400 + y) = [of_nat (0xD800 + x), of_nat (0xDC00 + y)]"
    by (simp add: utf16Units_def)
  also have "\<dots> = [of_nat (unat u), of_nat (unat v)]"
    by (simp only: x y)
  finally show ?thesis
    by (simp add: x_def y_def)
qed

lemma utf16_lone:
  "\<not> isHighSurrogate u \<Longrightarrow> \<not> isLowSurrogate u \<Longrightarrow> utf16Units (loneUnit u) = [u]"
  using unit_bound [of u] by (simp add: loneUnit_def utf16Units_def)

lemma utf16_scalarValues:
  "isWellFormed s \<Longrightarrow> concat (map utf16Units (scalarValues s)) = s"
proof (induction s rule: scalarValues.induct)
  case 1
  show ?case by simp
next
  case (2 u)
  then show ?case by (simp add: utf16_lone)
next
  case (3 u v rest)
  show ?case
  proof (cases "isHighSurrogate u")
    case True
    with 3 show ?thesis by (simp add: utf16_pair)
  next
    case False
    with 3 show ?thesis by (simp add: utf16_lone)
  qed
qed

lemma scalarValues_no_BOM:
  "take 1 s \<noteq> [0xFEFF] \<Longrightarrow> take 1 (scalarValues s) \<noteq> [0xFEFF]"
proof (induction s rule: scalarValues.induct)
  case 1
  show ?case by simp
next
  case (2 u)
  have "unat u = 0xFEFF \<Longrightarrow> u = 0xFEFF"
    by (simp add: word_unat_eq_iff)
  with 2 show ?case
    by (auto simp: loneUnit_def)
next
  case (3 u v rest)
  have "unat u = 0xFEFF \<Longrightarrow> u = 0xFEFF"
    by (simp add: word_unat_eq_iff)
  with 3 show ?case
    by (auto simp: loneUnit_def)
qed

lemma littleEndian_bytes: "littleEndian (littleEndianBytes k n) = n mod 256 ^ k"
proof (induction k arbitrary: n)
  case 0
  show ?case by simp
next
  case (Suc k)
  have "unat (of_nat (n mod 256) :: byte) = n mod 256"
    by (simp add: unat_of_nat)
  with Suc show ?case
    by (simp add: mod_mult2_eq)
qed

lemma length_littleEndianBytes: "length (littleEndianBytes k n) = k"
  by (induction k arbitrary: n) simp_all

lemma signed_of_unsigned:
  fixes w :: "64 word"
  shows "(if uint w < 2 ^ 63 then uint w else uint w - 2 ^ 64) = sint w"
proof -
  have u: "uint w = sint w mod 2 ^ 64"
    using uint_sint [of w] by (simp add: take_bit_eq_mod)
  have r: "- (2 ^ 63) \<le> sint w" "sint w < 2 ^ 63"
    using sint_ge [of w] sint_lt [of w] by simp_all
  show ?thesis
  proof (cases "0 \<le> sint w")
    case True
    with r have "sint w mod 2 ^ 64 = sint w"
      by (intro mod_pos_pos_trivial) simp_all
    with u r show ?thesis by simp
  next
    case False
    with r have "(sint w + 2 ^ 64) mod 2 ^ 64 = sint w + 2 ^ 64"
      by (intro mod_pos_pos_trivial) simp_all
    then have "sint w mod 2 ^ 64 = sint w + 2 ^ 64"
      by simp
    with u r False show ?thesis by simp
  qed
qed

lemma stripBOM_append_zeros: "stripBOM (cs @ replicate k 0) = stripBOM cs @ replicate k 0"
  by (cases cs; cases k) (simp_all add: stripBOM_def)

lemma utf16_zeros: "concat (replicate k (utf16Units 0)) = replicate k 0"
  by (induction k) (simp_all add: utf16Units_def)

lemma label_slot_decode:
  "removeNullCharacters (TextDecoder_decode (TextEncoder_encode s @ replicate k 0)) =
   removeNullCharacters (concat (map utf16Units (stripBOM (scalarValues s))))"
proof -
  have "utf8Run utf8Initial (TextEncoder_encode s @ replicate k 0) =
        scalarValues s @ replicate k 0"
    by (simp add: TextEncoder_encode_def utf8Run_scalars scalarValues_scalar utf8Run_zeros)
  then show ?thesis
    by (simp add: TextDecoder_decode_def stripBOM_append_zeros utf16_zeros
        removeNullCharacters_def)
qed

lemma stripBOM_id: "take 1 cs \<noteq> [0xFEFF] \<Longrightarrow> stripBOM cs = cs"
  by (cases cs) (simp_all add: stripBOM_def)

lemma label_slot_roundtrip:
  assumes "isWellFormed s" "0 \<notin> set s" "take 1 s \<noteq> [0xFEFF]"
  shows "removeNullCharacters (TextDecoder_decode (TextEncoder_encode s @ replicate k 0)) = s"
proof -
  have "stripBOM (scalarValues s) = scalarValues s"
    using assms(3) by (intro stripBOM_id scalarValues_no_BOM)
  moreover have "filter (\<lambda>u. u \<noteq> 0) s = s"
    using assms(2) by (auto simp: filter_id_conv)
  ultimately show ?thesis
    unfolding label_slot_decode
    using assms(1) by (simp add: utf16_scalarValues removeNullCharacters_def)
qed

section \<open>Addresses\<close>

text \<open>
  The base-58 rendering loses nothing: two byte sequences of the same length with the same
  rendering are equal. An address therefore stands for exactly one sequence of 32 bytes.
\<close>

lemma alphabet_distinct: "distinct base58Alphabet" "length base58Alphabet = 58"
  by (simp_all add: base58Alphabet_def)

lemma alphabet_inj:
  "i < 58 \<Longrightarrow> j < 58 \<Longrightarrow> base58Alphabet ! i = base58Alphabet ! j \<Longrightarrow> i = j"
  using alphabet_distinct by (simp add: nth_eq_iff_index_eq)

lemma digits_zero: "getBaseXFromBigInt 0 acc = acc"
  by (subst getBaseXFromBigInt.simps) simp

lemma digits_step:
  "0 < v \<Longrightarrow>
   getBaseXFromBigInt v acc = getBaseXFromBigInt (v div 58) (base58Alphabet ! (v mod 58) # acc)"
  by (subst getBaseXFromBigInt.simps) simp

lemma digits_acc: "getBaseXFromBigInt n acc = getBaseXFromBigInt n [] @ acc"
proof (induction n arbitrary: acc rule: less_induct)
  case (less n)
  show ?case
  proof (cases "0 < n")
    case True
    then have d: "n div 58 < n" by simp
    show ?thesis
      unfolding digits_step [OF True]
      by (subst less.IH [OF d]) (subst (2) less.IH [OF d], simp)
  next
    case False
    then show ?thesis by (simp add: digits_zero)
  qed
qed

lemma digits_snoc:
  "0 < n \<Longrightarrow>
   getBaseXFromBigInt n [] = getBaseXFromBigInt (n div 58) [] @ [base58Alphabet ! (n mod 58)]"
  using digits_step [of n "[]"] digits_acc [of "n div 58" "[base58Alphabet ! (n mod 58)]"]
  by (simp)

lemma digits_inj:
  "getBaseXFromBigInt n [] = getBaseXFromBigInt m [] \<Longrightarrow> n = m"
proof (induction n arbitrary: m rule: less_induct)
  case (less n)
  show ?case
  proof (cases "0 < n")
    case n: True
    show ?thesis
    proof (cases "0 < m")
      case m: True
      from less.prems have
        "getBaseXFromBigInt (n div 58) [] @ [base58Alphabet ! (n mod 58)] =
         getBaseXFromBigInt (m div 58) [] @ [base58Alphabet ! (m mod 58)]"
        by (simp only: digits_snoc [OF n] digits_snoc [OF m])
      then have q: "getBaseXFromBigInt (n div 58) [] = getBaseXFromBigInt (m div 58) []"
        and r: "base58Alphabet ! (n mod 58) = base58Alphabet ! (m mod 58)"
        by simp_all
      from n have "n div 58 < n" by simp
      from less.IH [OF this q] have "n div 58 = m div 58" .
      moreover from r have "n mod 58 = m mod 58"
        by (intro alphabet_inj) simp_all
      ultimately show ?thesis
        by (metis div_mult_mod_eq)
    next
      case False
      with less.prems n show ?thesis
        by (simp add: digits_snoc digits_zero)
    qed
  next
    case False
    then have n0: "n = 0" by simp
    show ?thesis
    proof (cases "0 < m")
      case True
      with less.prems n0 show ?thesis
        by (simp add: digits_snoc digits_zero)
    next
      case False
      with n0 show ?thesis by simp
    qed
  qed
qed

lemma digits_head:
  "0 < n \<Longrightarrow> getBaseXFromBigInt n [] \<noteq> [] \<and> hd (getBaseXFromBigInt n []) \<noteq> CHR ''1''"
proof (induction n rule: less_induct)
  case (less n)
  have one: "base58Alphabet ! 0 = CHR ''1''"
    by (simp add: base58Alphabet_def)
  show ?case
  proof (cases "0 < n div 58")
    case True
    moreover from less.prems have "n div 58 < n" by simp
    ultimately have "getBaseXFromBigInt (n div 58) [] \<noteq> []"
      "hd (getBaseXFromBigInt (n div 58) []) \<noteq> CHR ''1''"
      using less.IH by simp_all
    then show ?thesis
      by (simp add: digits_snoc [OF less.prems])
  next
    case False
    then have small: "n < 58" "n mod 58 = n"
      by (simp_all add: div_eq_0_iff)
    have "base58Alphabet ! n \<noteq> base58Alphabet ! 0"
      using alphabet_inj [of n 0] small less.prems by auto
    with False small show ?thesis
      by (simp add: digits_snoc [OF less.prems] one digits_zero)
  qed
qed

lemma bigEndian_snoc:
  "foldl (\<lambda>sum byte. sum * 256 + unat byte) 0 (xs @ [x :: byte]) =
   foldl (\<lambda>sum byte. sum * 256 + unat byte) 0 xs * 256 + unat x"
  by simp

lemma base256_unique:
  assumes "a * 256 + x = b * 256 + (y::nat)" "x < 256" "y < 256"
  shows "x = y" "a = b"
proof -
  have "(a * 256 + x) div 256 = a" "(b * 256 + y) div 256 = b"
    "(a * 256 + x) mod 256 = x" "(b * 256 + y) mod 256 = y"
    using assms(2,3) by simp_all
  with assms(1) show "x = y" "a = b"
    by simp_all
qed

lemma bigEndian_inj:
  "length xs = length ys \<Longrightarrow>
   foldl (\<lambda>sum byte. sum * 256 + unat byte) 0 xs =
   foldl (\<lambda>sum byte. sum * 256 + unat (byte :: byte)) 0 ys \<Longrightarrow> xs = ys"
proof (induction xs arbitrary: ys rule: rev_induct)
  case Nil
  then show ?case by simp
next
  case (snoc x xs)
  from snoc.prems(1) obtain y ys' where ys: "ys = ys' @ [y]"
    by (cases ys rule: rev_cases) simp_all
  let ?v = "foldl (\<lambda>sum byte. sum * 256 + unat (byte :: byte)) 0"
  have x: "unat x < 256" and y: "unat y < 256"
    using unsigned_less [of x, where ?'a = nat] unsigned_less [of y, where ?'a = nat]
    by simp_all
  from snoc.prems(2) have e: "?v xs * 256 + unat x = ?v ys' * 256 + unat y"
    by (simp add: ys)
  from e x y have "unat x = unat y" "?v xs = ?v ys'"
    by (rule base256_unique)+
  with snoc.IH [of ys'] snoc.prems(1) show ?case
    by (simp add: ys word_unat_eq_iff)
qed

lemma bigEndian_pos:
  "xs \<noteq> [] \<Longrightarrow> hd xs \<noteq> 0 \<Longrightarrow> 0 < foldl (\<lambda>sum byte. sum * 256 + unat (byte :: byte)) 0 xs"
proof (induction xs rule: rev_induct)
  case Nil
  then show ?case by simp
next
  case (snoc x xs)
  show ?case
  proof (cases "xs = []")
    case True
    with snoc.prems show ?thesis
      by (simp add: unat_gt_0)
  next
    case False
    with snoc show ?thesis by simp
  qed
qed

lemma takeWhile_const:
  "takeWhile (\<lambda>n. n = c) xs = replicate (length (takeWhile (\<lambda>n. n = c) xs)) c"
  by (induction xs) simp_all

lemma base58_shape:
  assumes "bs \<noteq> []"
  shows "getBase58Decoder bs 0 =
     Inr (replicate (length (takeWhile (\<lambda>n. n = 0) bs)) CHR ''1''
            @ getBaseXFromBigInt
                (foldl (\<lambda>sum byte. sum * 256 + unat byte) 0
                   (drop (length (takeWhile (\<lambda>n. n = 0) bs)) bs)) [],
          length bs)"
  using assms
  by (simp add: getBase58Decoder_def Let_def base58Alphabet_def digits_zero)

lemma leading_ones:
  assumes "replicate j c @ xs = replicate k c @ ys"
    and "xs = [] \<or> hd xs \<noteq> c" and "ys = [] \<or> hd ys \<noteq> c"
  shows "j = k \<and> xs = ys"
proof -
  have t: "takeWhile (\<lambda>x. x = c) (replicate n c @ zs) = replicate n c"
    if "zs = [] \<or> hd zs \<noteq> c" for n zs
    using that by (induction n) (cases zs; simp)+
  from assms(1) have
    "takeWhile (\<lambda>x. x = c) (replicate j c @ xs) = takeWhile (\<lambda>x. x = c) (replicate k c @ ys)"
    by simp
  then have "replicate j c = replicate k c"
    by (simp only: t [OF assms(2)] t [OF assms(3)])
  then have "length (replicate j c) = length (replicate k c)"
    by (rule arg_cong)
  then have "j = k"
    by simp
  with assms(1) show ?thesis by simp
qed

lemma base58_tail:
  fixes bs :: "byte list"
  defines "k \<equiv> length (takeWhile (\<lambda>n. n = 0) bs)"
  defines "ds \<equiv> getBaseXFromBigInt (foldl (\<lambda>sum byte. sum * 256 + unat byte) 0 (drop k bs)) []"
  shows "ds = [] \<or> hd ds \<noteq> CHR ''1''"
proof (cases "drop k bs = []")
  case True
  then show ?thesis by (simp add: ds_def digits_zero)
next
  case False
  have d: "drop k bs = dropWhile (\<lambda>n. n = 0) bs"
    by (simp add: k_def dropWhile_eq_drop)
  with False have "hd (drop k bs) \<noteq> 0"
    using hd_dropWhile [of "\<lambda>n. n = 0" bs] by simp
  with False have "0 < foldl (\<lambda>sum byte. sum * 256 + unat byte) 0 (drop k bs)"
    by (intro bigEndian_pos)
  from digits_head [OF this] show ?thesis
    by (simp add: ds_def)
qed

lemma base58_inj:
  fixes A B :: "byte list"
  assumes "length A = length B" "A \<noteq> []"
    and "getBase58Decoder A 0 = getBase58Decoder B 0"
  shows "A = B"
proof -
  let ?k = "\<lambda>bs :: byte list. length (takeWhile (\<lambda>n. n = 0) bs)"
  let ?v = "\<lambda>bs :: byte list. foldl (\<lambda>sum byte. sum * 256 + unat byte) 0 (drop (?k bs) bs)"
  from assms(1,2) have "B \<noteq> []" by auto
  from assms(3) have
    "replicate (?k A) CHR ''1'' @ getBaseXFromBigInt (?v A) [] =
     replicate (?k B) CHR ''1'' @ getBaseXFromBigInt (?v B) []"
    by (simp only: base58_shape [OF assms(2)] base58_shape [OF \<open>B \<noteq> []\<close>] sum.inject
        prod.inject)
  from leading_ones [OF this base58_tail [of A] base58_tail [of B]]
  have k: "?k A = ?k B" and "getBaseXFromBigInt (?v A) [] = getBaseXFromBigInt (?v B) []"
    by blast+
  then have "?v A = ?v B"
    by (intro digits_inj)
  moreover have "length (drop (?k A) A) = length (drop (?k B) B)"
    using assms(1) k by simp
  ultimately have d: "drop (?k A) A = drop (?k B) B"
    by (intro bigEndian_inj)
  have zeros: "take (?k bs) bs = replicate (?k bs) 0" for bs
  proof -
    have "take (?k bs) bs = takeWhile (\<lambda>n. n = 0) bs"
      by (rule takeWhile_eq_take [symmetric])
    also have "\<dots> = replicate (?k bs) 0"
      by (rule takeWhile_const)
    finally show ?thesis .
  qed
  have tA: "take (?k A) A = replicate (?k B) 0"
    using zeros [of A] by (simp only: k)
  have "A = take (?k A) A @ drop (?k A) A"
    by simp
  also have "\<dots> = replicate (?k B) 0 @ drop (?k B) B"
    by (simp only: tA d)
  also have "\<dots> = take (?k B) B @ drop (?k B) B"
    unfolding zeros ..
  also have "\<dots> = B"
    by simp
  finally show ?thesis .
qed

lemma address_inj:
  assumes "length A = 32" "length B = 32"
    and "decode getAddressDecoder A = decode getAddressDecoder B"
  shows "A = B"
proof -
  have "decode getAddressDecoder A = Inr (fst (projr (getBase58Decoder A 0)))"
    "decode getAddressDecoder B = Inr (fst (projr (getBase58Decoder B 0)))"
    using assms(1,2) by (simp_all add: decode_def address_read)
  with assms(3) have "fst (projr (getBase58Decoder A 0)) = fst (projr (getBase58Decoder B 0))"
    by simp
  moreover from assms(1,2) have "A \<noteq> []" "B \<noteq> []" by auto
  ultimately have "getBase58Decoder A 0 = getBase58Decoder B 0"
    using assms(1,2) by (simp add: base58_shape)
  with assms(1,2) \<open>A \<noteq> []\<close> show ?thesis
    by (intro base58_inj) simp_all
qed

section \<open>Round trip through the account layout\<close>

lemma layout:
  assumes "length A = 32" "length L = 30" "length T = 8" "length N = 2"
  shows "take 32 (A @ L @ T @ [b] @ [i] @ N @ D) = A"
    and "take 30 (drop 32 (A @ L @ T @ [b] @ [i] @ N @ D)) = L"
    and "take 8 (drop 62 (A @ L @ T @ [b] @ [i] @ N @ D)) = T"
    and "(A @ L @ T @ [b] @ [i] @ N @ D) ! 70 = b"
    and "(A @ L @ T @ [b] @ [i] @ N @ D) ! 71 = i"
    and "take 2 (drop 72 (A @ L @ T @ [b] @ [i] @ N @ D)) = N"
    and "drop 74 (A @ L @ T @ [b] @ [i] @ N @ D) = D"
    and "length (A @ L @ T @ [b] @ [i] @ N @ D) = 74 + length D"
  using assms by (simp_all add: nth_append)

lemma serialized_decode:
  assumes "length (storedAuthority a) = 32"
    and "length (TextEncoder_encode (storedLabel a)) \<le> 30"
    and "length (storedData a) \<le> 65535"
  shows "decode getDataStorageAccountDecoder (serializeAccount a) = Inr
          \<lparr>authority = fst (projr (getBase58Decoder (storedAuthority a) 0)),
            DataStorageAccount.label =
              removeNullCharacters
                (concat (map utf16Units (stripBOM (scalarValues (storedLabel a))))),
            lastUpdated = sint (storedLastUpdated a),
            canonicalBump = uint (storedCanonicalBump a),
            isInitialized = storedIsInitialized a,
            DataStorageAccount.data = map uint (storedData a)\<rparr>"
proof -
  define A where "A = storedAuthority a"
  define E where "E = TextEncoder_encode (storedLabel a)"
  define L where "L = take 30 E @ replicate (30 - length E) 0"
  define T where "T = littleEndianBytes 8 (unat (storedLastUpdated a))"
  define N where "N = littleEndianBytes 2 (length (storedData a))"
  define i :: byte where "i = (if storedIsInitialized a then 1 else 0)"
  define bytes where "bytes = A @ L @ T @ [storedCanonicalBump a] @ [i] @ N @ storedData a"
  have bytes: "serializeAccount a = bytes"
    by (simp add: serializeAccount_def bytes_def A_def L_def E_def T_def N_def i_def)
  have lens: "length A = 32" "length L = 30" "length T = 8" "length N = 2"
    using assms by (simp_all add: length_littleEndianBytes A_def L_def E_def T_def N_def)
  note lay = layout [OF lens, of "storedCanonicalBump a" i "storedData a", folded bytes_def]
  have n: "littleEndian N = length (storedData a)"
    using assms(3) by (simp add: littleEndian_bytes N_def)
  have "unat (storedLastUpdated a) < 2 ^ 64"
    using unsigned_less [of "storedLastUpdated a", where ?'a = nat] by simp
  then have t: "int (littleEndian T) = uint (storedLastUpdated a)"
    by (simp add: littleEndian_bytes T_def)
  have l: "L = E @ replicate (30 - length E) 0"
    using assms(2) by (simp add: L_def E_def)
  have i: "(uint i = 1) = storedIsInitialized a"
    by (simp add: i_def)
  have long: "74 + littleEndian (take 2 (drop 72 bytes)) \<le> length bytes"
    unfolding lay n by simp
  have label: "removeNullCharacters (TextDecoder_decode L) =
      removeNullCharacters (concat (map utf16Units (stripBOM (scalarValues (storedLabel a)))))"
    unfolding l E_def by (rule label_slot_decode)
  have time: "(let n = int (littleEndian T) in if n < 2 ^ 63 then n else n - 2 ^ 64) =
      sint (storedLastUpdated a)"
    unfolding t Let_def by (rule signed_of_unsigned)
  show ?thesis
    unfolding bytes account_decode_long [OF long] lay n label time i A_def
    by simp
qed

lemma address_of_32_bytes:
  "length A = 32 \<Longrightarrow>
   decode getAddressDecoder A = Inr (fst (projr (getBase58Decoder A 0)))"
  by (simp add: decode_def address_read)

text \<open>
  Claim C3 (as amended). For every account whose authority has 32 bytes, whose label has at
  most 30 UTF-8 bytes, is well formed, has no character U+0000 and does not start with
  U+FEFF, and whose data has at most 65535 bytes, decoding the serialization recovers the
  authority (the address of its 32 bytes, which is the address of no other 32 bytes), the
  label, lastUpdated as a signed number, canonicalBump, isInitialized and the data.
\<close>

theorem stored_account_roundtrip:
  assumes "length (storedAuthority a) = 32"
    and "length (TextEncoder_encode (storedLabel a)) \<le> 30"
    and "length (storedData a) \<le> 65535"
    and "isWellFormed (storedLabel a)"
    and "0 \<notin> set (storedLabel a)"
    and "take 1 (storedLabel a) \<noteq> [0xFEFF]"
  shows "\<exists>addr. decode getAddressDecoder (storedAuthority a) = Inr addr \<and>
           (\<forall>B. length B = 32 \<longrightarrow> decode getAddressDecoder B = Inr addr \<longrightarrow>
                B = storedAuthority a) \<and>
           decode getDataStorageAccountDecoder (serializeAccount a) = Inr
             \<lparr>authority = addr,
              DataStorageAccount.label = storedLabel a,
              lastUpdated = sint (storedLastUpdated a),
              canonicalBump = uint (storedCanonicalBump a),
              isInitialized = storedIsInitialized a,
              DataStorageAccount.data = map uint (storedData a)\<rparr>"
proof -
  have "stripBOM (scalarValues (storedLabel a)) = scalarValues (storedLabel a)"
    using assms(6) by (intro stripBOM_id scalarValues_no_BOM)
  moreover have "filter (\<lambda>u. u \<noteq> 0) (storedLabel a) = storedLabel a"
    using assms(5) by (auto simp: filter_id_conv)
  ultimately have "removeNullCharacters
      (concat (map utf16Units (stripBOM (scalarValues (storedLabel a))))) = storedLabel a"
    using assms(4) by (simp add: utf16_scalarValues removeNullCharacters_def)
  moreover have "B = storedAuthority a"
    if "length B = 32" "decode getAddressDecoder B = decode getAddressDecoder (storedAuthority a)"
    for B
    using that assms(1) by (intro address_inj) simp_all
  ultimately show ?thesis
    using serialized_decode [OF assms(1-3)] address_of_32_bytes [OF assms(1)]
    by simp
qed

theorem stored_account_roundtrip_witness:
  "length (storedAuthority
      \<lparr>storedAuthority = replicate 32 7, storedLabel = [0x68, 0x65, 0x6C, 0x6C, 0x6F],
       storedLastUpdated = - 1, storedCanonicalBump = 254, storedIsInitialized = True,
       storedData = [1, 2, 3]\<rparr>) = 32 \<and>
   length (TextEncoder_encode [0x68, 0x65, 0x6C, 0x6C, 0x6F]) \<le> 30 \<and>
   length [1, 2, 3 :: byte] \<le> 65535 \<and>
   isWellFormed [0x68, 0x65, 0x6C, 0x6C, 0x6F] \<and>
   0 \<notin> set [0x68, 0x65, 0x6C, 0x6C, 0x6F :: 16 word] \<and>
   take 1 [0x68, 0x65, 0x6C, 0x6C, 0x6F] \<noteq> [0xFEFF :: 16 word] \<and>
   (\<exists>addr. decode getAddressDecoder (replicate 32 7) = Inr addr \<and>
      (\<forall>B. length B = 32 \<longrightarrow> decode getAddressDecoder B = Inr addr \<longrightarrow>
           B = replicate 32 7) \<and>
      decode getDataStorageAccountDecoder (serializeAccount
        \<lparr>storedAuthority = replicate 32 7, storedLabel = [0x68, 0x65, 0x6C, 0x6C, 0x6F],
         storedLastUpdated = - 1, storedCanonicalBump = 254, storedIsInitialized = True,
         storedData = [1, 2, 3]\<rparr>) = Inr
        \<lparr>authority = addr,
         DataStorageAccount.label = [0x68, 0x65, 0x6C, 0x6C, 0x6F],
         lastUpdated = - 1, canonicalBump = 254, isInitialized = True,
         DataStorageAccount.data = [1, 2, 3]\<rparr>)"
proof -
  let ?a = "\<lparr>storedAuthority = replicate 32 7, storedLabel = [0x68, 0x65, 0x6C, 0x6C, 0x6F],
       storedLastUpdated = - 1, storedCanonicalBump = 254, storedIsInitialized = True,
       storedData = [1, 2, 3]\<rparr>"
  have h: "length (storedAuthority ?a) = 32"
    "length (TextEncoder_encode (storedLabel ?a)) \<le> 30"
    "length (storedData ?a) \<le> 65535"
    "isWellFormed (storedLabel ?a)"
    "0 \<notin> set (storedLabel ?a)"
    "take 1 (storedLabel ?a) \<noteq> [0xFEFF]"
    by (simp_all add: hello_bytes isHighSurrogate_def isLowSurrogate_def)
  from stored_account_roundtrip [OF h] h show ?thesis
    by simp
qed

text \<open>
  The claim C3 as it is written, for every label of at most 30 UTF-8 bytes, is false for the
  label "a", U+0000, "b": the decoder removes every U+0000 of the slot, not only the
  padding at its end, and returns "ab".
\<close>

theorem label_with_null_counterexample:
  "length (storedAuthority
      \<lparr>storedAuthority = replicate 32 0, storedLabel = [0x61, 0, 0x62],
       storedLastUpdated = 0, storedCanonicalBump = 0, storedIsInitialized = True,
       storedData = []\<rparr>) = 32 \<and>
   length (TextEncoder_encode [0x61, 0, 0x62]) \<le> 30 \<and>
   decode getDataStorageAccountDecoder (serializeAccount
      \<lparr>storedAuthority = replicate 32 0, storedLabel = [0x61, 0, 0x62],
       storedLastUpdated = 0, storedCanonicalBump = 0, storedIsInitialized = True,
       storedData = []\<rparr>) = Inr
      \<lparr>authority = replicate 32 CHR ''1'',
       DataStorageAccount.label = [0x61, 0x62],
       lastUpdated = 0, canonicalBump = 0, isInitialized = True,
       DataStorageAccount.data = []\<rparr> \<and>
   [0x61, 0x62] \<noteq> [0x61, 0, 0x62 :: 16 word]"
proof -
  let ?a = "\<lparr>storedAuthority = replicate 32 0, storedLabel = [0x61, 0, 0x62],
       storedLastUpdated = 0, storedCanonicalBump = 0, storedIsInitialized = True,
       storedData = []\<rparr>"
  have e: "TextEncoder_encode [0x61, 0, 0x62] = [0x61, 0, 0x62]"
    by (simp add: TextEncoder_encode_def utf8Bytes_def isHighSurrogate_def isLowSurrogate_def
        loneUnit_def)
  have h: "length (storedAuthority ?a) = 32"
    "length (TextEncoder_encode (storedLabel ?a)) \<le> 30"
    "length (storedData ?a) \<le> 65535"
    by (simp_all add: e)
  from serialized_decode [OF h] h show ?thesis
    by (simp add: base58_zeros removeNullCharacters_def utf16Units_def stripBOM_def
        isHighSurrogate_def isLowSurrogate_def loneUnit_def)
qed

text \<open>
  The other two conditions on the label are needed as well: a byte order mark at the start
  of the label is dropped, and a surrogate without its partner comes back as U+FFFD.
\<close>

lemma label_slot_losses:
  "removeNullCharacters (TextDecoder_decode (TextEncoder_encode [0xFEFF, 0x61] @ replicate 26 0))
     = [0x61]"
  "removeNullCharacters (TextDecoder_decode (TextEncoder_encode [0xD800] @ replicate 27 0))
     = [0xFFFD]"
  unfolding label_slot_decode
  by (simp_all add: removeNullCharacters_def utf16Units_def stripBOM_def isHighSurrogate_def
      isLowSurrogate_def loneUnit_def)

end
